theory Spec2Isabelle
  imports Main "HOL-Library.Multiset"
begin

section \<open>Data model of the production resolver database\<close>

text \<open>
  The embedding follows \<^verbatim>\<open>production_resolver_lib.py\<close>. The SQLite store is modelled
  by its three tables. A table is the list of its rows in rowid order, which is the order
  in which SQLite scans a table that has no index; a table that has not been created yet
  is represented by the empty list. Nullable TEXT columns and Python's optional
  arguments are \<open>string option\<close>, with \<open>None\<close> for NULL.
\<close>

record context_row =
  context_id :: nat
  project :: "string option"
  category :: "string option"
  entity :: "string option"

record package_row =
  rowid :: nat
  pkg_context_id :: nat
  name :: string
  step :: "string option"
  software :: "string option"

record history_row =
  h_user :: string
  h_context :: string
  h_package_name :: string
  h_step :: string
  h_software :: string
  h_operation :: int
  h_date :: nat
  h_comment :: string

record store =
  context_tbl :: "context_row list"
  package_tbl :: "package_row list"
  history_tbl :: "history_row list"

datatype HistoryEditOperation = INSTALL | UNINSTALL

fun operation_value :: "HistoryEditOperation \<Rightarrow> int" where
  "operation_value INSTALL = 1"
| "operation_value UNINSTALL = 2"

record HistoryEdit =
  edit_context :: "string option list"
  edit_package_name :: string
  edit_step :: "string option"
  edit_software :: "string option"
  edit_operation :: HistoryEditOperation

text \<open>
  The exceptions the library raises or lets through. \<open>RezError\<close> stands for
  \<^verbatim>\<open>rez.exceptions.RezError\<close> and its subclasses; \<open>OperationalError\<close> and \<open>OSError\<close> are the
  faults of SQLite and of the file system.
\<close>

datatype error =
  ValueError string
| RuntimeError string
| TypeError string
| RezError string
| OperationalError string
| OSError string

fun is_RezError :: "error \<Rightarrow> bool" where
  "is_RezError (RezError _) = True"
| "is_RezError _ = False"

text \<open>Python truthiness of an optional string and of an optional row id.\<close>

fun truthy_str :: "string option \<Rightarrow> bool" where
  "truthy_str None = False"
| "truthy_str (Some s) = (s \<noteq> [])"

fun truthy_id :: "nat option \<Rightarrow> bool" where
  "truthy_id None = False"
| "truthy_id (Some n) = (n \<noteq> 0)"

section \<open>Context model\<close>

text \<open>
  \<^verbatim>\<open>sanitize_context(*contexts)\<close>: more than three levels is a \<^verbatim>\<open>ValueError\<close>; otherwise the
  levels are padded on the right with \<^verbatim>\<open>None\<close> up to three positions.
\<close>

definition sanitize_context ::
  "string option list \<Rightarrow> error + (string option \<times> string option \<times> string option)" where
  "sanitize_context contexts =
     (if length contexts > 3
      then Inl (ValueError ''A context can only 0 to 3 production environments.'')
      else (let production_context = contexts @ replicate (3 - length contexts) None
            in Inr (production_context ! 0, production_context ! 1, production_context ! 2)))"

text \<open>
  One condition of the WHERE clause built by \<^verbatim>\<open>get_context_row_id\<close>: \<^verbatim>\<open>col = ?\<close> for a
  level that is not \<^verbatim>\<open>None\<close>, \<^verbatim>\<open>col IS NULL\<close> otherwise. In SQL \<^verbatim>\<open>col = ?\<close> is not true on
  a NULL column.
\<close>

fun condition :: "string option \<Rightarrow> string option \<Rightarrow> bool" where
  "condition (Some v) col = (case col of None \<Rightarrow> False | Some c \<Rightarrow> c = v)"
| "condition None col = (col = None)"

definition select_context_ids ::
  "store \<Rightarrow> string option \<times> string option \<times> string option \<Rightarrow> nat list" where
  "select_context_ids db pc =
     (case pc of (p, c, e) \<Rightarrow>
        map context_id
          (filter (\<lambda>r. condition p (project r) \<and> condition c (category r)
                        \<and> condition e (entity r))
             (context_tbl db)))"

text \<open>\<^verbatim>\<open>next(iter(result), (None,))[0]\<close>: the first row of the result, or \<^verbatim>\<open>None\<close>.\<close>

fun first_or_None :: "nat list \<Rightarrow> nat option" where
  "first_or_None [] = None"
| "first_or_None (x # _) = Some x"

definition get_context_row_id :: "store \<Rightarrow> string option list \<Rightarrow> error + nat option" where
  "get_context_row_id db contexts =
     (case sanitize_context contexts of
        Inl err \<Rightarrow> Inl err
      | Inr production_context \<Rightarrow> Inr (first_or_None (select_context_ids db production_context)))"

text \<open>
  The id SQLite gives to an inserted row: one more than the largest id of the table
  (context rows are never deleted, so for the AUTOINCREMENT column of \<^verbatim>\<open>context\<close> the
  largest id ever used is the largest id present).
\<close>

definition next_id :: "nat list \<Rightarrow> nat" where
  "next_id ids = Suc (fold max ids 0)"

definition insert_context :: "store \<Rightarrow> string option list \<Rightarrow> error + (nat \<times> store)" where
  "insert_context db contexts =
     (case sanitize_context contexts of
        Inl err \<Rightarrow> Inl err
      | Inr (p, c, e) \<Rightarrow>
          (let new_id = next_id (map context_id (context_tbl db))
           in Inr (new_id,
                   db\<lparr>context_tbl := context_tbl db @
                        [\<lparr>context_id = new_id, project = p, category = c, entity = e\<rparr>]\<rparr>)))"

section \<open>Validation gateway\<close>

text \<open>
  The external resolver is a parameter: for a list of package names, the body of the
  \<^verbatim>\<open>try\<close> block of \<^verbatim>\<open>validate_context\<close> either raises an exception (from
  \<^verbatim>\<open>ResolvedContext(packages)\<close> or from \<^verbatim>\<open>validate()\<close>) or completes, and then
  \<^verbatim>\<open>status == ResolverStatus.solved\<close> is true or false.
\<close>

datatype resolver_outcome = Completed bool | Raised error

type_synonym resolver = "string list \<Rightarrow> resolver_outcome"

definition validate_context :: "resolver \<Rightarrow> string list \<Rightarrow> error + (bool \<times> error option)" where
  "validate_context rez packages =
     (case rez packages of
        Completed is_solved \<Rightarrow> Inr (is_solved, None)
      | Raised exc \<Rightarrow> (if is_RezError exc then Inr (False, Some exc) else Inl exc))"

section \<open>Package ledger: listing\<close>

text \<open>\<^verbatim>\<open>list(dict.fromkeys(xs))\<close>: the keys of an insertion-ordered dictionary.\<close>

fun dict_fromkeys_into :: "'a list \<Rightarrow> 'a list \<Rightarrow> 'a list" where
  "dict_fromkeys_into keys [] = keys"
| "dict_fromkeys_into keys (x # xs) =
     dict_fromkeys_into (if x \<in> set keys then keys else keys @ [x]) xs"

definition dict_fromkeys :: "'a list \<Rightarrow> 'a list" where
  "dict_fromkeys xs = dict_fromkeys_into [] xs"

text \<open>The four WHERE-clause suffixes that are the keys of \<^verbatim>\<open>lookup_steps\<close>.\<close>

datatype lookup_clause =
  StepNull_SoftwareNull
| StepEq_SoftwareNull
| StepNull_SoftwareEq
| StepEq_SoftwareEq

text \<open>
  \<^verbatim>\<open>lookup_steps\<close> is a dictionary filled in this order; its four possible keys are
  different strings, so no entry replaces another and iteration follows insertion.
\<close>

definition lookup_steps ::
  "string option \<Rightarrow> string option \<Rightarrow> (lookup_clause \<times> string list) list" where
  "lookup_steps stp sw =
     [(StepNull_SoftwareNull, [])]
     @ (if truthy_str stp then [(StepEq_SoftwareNull, [the stp])] else [])
     @ (if truthy_str sw then [(StepNull_SoftwareEq, [the sw])] else [])
     @ (if truthy_str stp \<and> truthy_str sw then [(StepEq_SoftwareEq, [the stp, the sw])] else [])"

text \<open>
  The WHERE clause of the SELECT on one row, for the bound attributes. A number of
  attributes that does not fit the clause cannot come out of \<open>lookup_steps\<close>; such a
  query selects nothing here.
\<close>

fun lookup_matches :: "lookup_clause \<Rightarrow> string list \<Rightarrow> package_row \<Rightarrow> bool" where
  "lookup_matches StepNull_SoftwareNull [] r = (step r = None \<and> software r = None)"
| "lookup_matches StepEq_SoftwareNull [s] r = (step r = Some s \<and> software r = None)"
| "lookup_matches StepNull_SoftwareEq [w] r = (step r = None \<and> software r = Some w)"
| "lookup_matches StepEq_SoftwareEq [s, w] r = (step r = Some s \<and> software r = Some w)"
| "lookup_matches _ _ r = False"

definition select_names :: "store \<Rightarrow> nat \<Rightarrow> lookup_clause \<Rightarrow> string list \<Rightarrow> string list" where
  "select_names db cid clause attrs =
     map name (filter (\<lambda>r. pkg_context_id r = cid \<and> lookup_matches clause attrs r)
                 (package_tbl db))"

text \<open>The inner loop over \<^verbatim>\<open>lookup_steps.items()\<close>, extending \<^verbatim>\<open>packages\<close>.\<close>

fun lookup_loop ::
  "store \<Rightarrow> nat \<Rightarrow> (lookup_clause \<times> string list) list \<Rightarrow> string list \<Rightarrow> string list" where
  "lookup_loop db cid [] packages = packages"
| "lookup_loop db cid ((clause, attrs) # rest) packages =
     lookup_loop db cid rest (packages @ select_names db cid clause attrs)"

text \<open>The outer loop over \<^verbatim>\<open>context_row_ids\<close>.\<close>

fun context_loop ::
  "store \<Rightarrow> (lookup_clause \<times> string list) list \<Rightarrow> nat list \<Rightarrow> string list \<Rightarrow> string list" where
  "context_loop db lookups [] packages = packages"
| "context_loop db lookups (cid # cids) packages =
     context_loop db lookups cids (lookup_loop db cid lookups packages)"

text \<open>\<^verbatim>\<open>str(message)\<close> for the message of a failed validation.\<close>

fun str_of_error :: "error \<Rightarrow> string" where
  "str_of_error (ValueError m) = m"
| "str_of_error (RuntimeError m) = m"
| "str_of_error (TypeError m) = m"
| "str_of_error (RezError m) = m"
| "str_of_error (OperationalError m) = m"
| "str_of_error (OSError m) = m"

fun str_of_message :: "error option \<Rightarrow> string" where
  "str_of_message None = ''None''"
| "str_of_message (Some e) = str_of_error e"

text \<open>
  The four lookups of the ancestor chain. Every level handed to \<^verbatim>\<open>get_context_row_id\<close>
  here is a list of three, so \<^verbatim>\<open>sanitize_context\<close> cannot fail in these calls.
\<close>

definition chain_row_ids ::
  "store \<Rightarrow> string option \<times> string option \<times> string option \<Rightarrow> nat option list" where
  "chain_row_ids db pc =
     (case pc of (p, c, e) \<Rightarrow>
        map (\<lambda>lv. first_or_None (select_context_ids db lv))
          [(None, None, None), (p, None, None), (p, c, None), (p, c, e)])"

definition collect_packages ::
  "store \<Rightarrow> string option \<times> string option \<times> string option \<Rightarrow>
     string option \<Rightarrow> string option \<Rightarrow> string list" where
  "collect_packages db pc stp sw =
     (let context_row_ids = dict_fromkeys (map the (filter truthy_id (chain_row_ids db pc)))
      in context_loop db (lookup_steps stp sw) context_row_ids [])"

definition get_package_list ::
  "resolver \<Rightarrow> store \<Rightarrow> string option list \<Rightarrow> string option \<Rightarrow> string option \<Rightarrow> bool
     \<Rightarrow> error + string list" where
  "get_package_list rez db contexts stp sw validate =
     (case sanitize_context contexts of
        Inl err \<Rightarrow> Inl err
      | Inr production_context \<Rightarrow>
          (let packages = collect_packages db production_context stp sw
           in if validate
              then (case validate_context rez packages of
                      Inl exc \<Rightarrow> Inl exc
                    | Inr (validation_status, message) \<Rightarrow>
                        if \<not> validation_status
                        then Inl (ValueError (''Package list can't be validated: ''
                                               @ str_of_message message))
                        else Inr (dict_fromkeys packages))
              else Inr (dict_fromkeys packages)))"

section \<open>Sessions, the edit buffer and saving\<close>

text \<open>
  A session is the object inside its \<^verbatim>\<open>with\<close> block: the mode fixed by
  \<^verbatim>\<open>load_production\<close>, the database as its connection sees it, the list
  \<^verbatim>\<open>__edits\<close>, and whether the connection has a write transaction open
  (\<^verbatim>\<open>connection.in_transaction\<close>): the \<^verbatim>\<open>sqlite3\<close> module begins one before an INSERT
  or a DELETE, and \<^verbatim>\<open>connection.commit()\<close> in \<^verbatim>\<open>save\<close> ends it. Every mutating operation
  returns its result (or the exception it raises) together with the session it leaves
  behind.
\<close>

record session =
  load_production :: bool
  db :: store
  edits :: "HistoryEdit list"
  in_transaction :: bool

text \<open>The collaborators of \<^verbatim>\<open>save\<close>: \<^verbatim>\<open>getpass.getuser()\<close>, and \<^verbatim>\<open>datetime.now()\<close> as the
  value of its i-th reading during the call.\<close>

record environment =
  getuser :: string
  now :: "nat \<Rightarrow> nat"

text \<open>\<^verbatim>\<open>",".join([c for c in contexts if c])\<close>\<close>

fun join_comma :: "string list \<Rightarrow> string" where
  "join_comma [] = []"
| "join_comma [x] = x"
| "join_comma (x # y # ys) = x @ '','' @ join_comma (y # ys)"

definition join_contexts :: "string option list \<Rightarrow> string" where
  "join_contexts contexts = join_comma (map the (filter truthy_str contexts))"

text \<open>The decimal digits of a natural number, as an f-string prints it.\<close>

fun str_of_nat :: "nat \<Rightarrow> string" where
  "str_of_nat n =
     (if n < 10 then [char_of (48 + n)]
      else str_of_nat (n div 10) @ [char_of (48 + n mod 10)])"

text \<open>\<^verbatim>\<open>x or ""\<close>\<close>

fun or_empty :: "string option \<Rightarrow> string" where
  "or_empty None = []"
| "or_empty (Some s) = s"

definition history_row_of ::
  "environment \<Rightarrow> string \<Rightarrow> nat \<Rightarrow> nat \<Rightarrow> HistoryEdit \<Rightarrow> history_row" where
  "history_row_of env comment n_edits index edit_data =
     \<lparr>h_user = getuser env,
      h_context = join_contexts (edit_context edit_data),
      h_package_name = edit_package_name edit_data,
      h_step = or_empty (edit_step edit_data),
      h_software = or_empty (edit_software edit_data),
      h_operation = operation_value (edit_operation edit_data),
      h_date = now env index,
      h_comment = comment @ ''('' @ str_of_nat (index + 1) @ ''/'' @ str_of_nat n_edits @ '')''\<rparr>"

definition save :: "environment \<Rightarrow> bool \<Rightarrow> string \<Rightarrow> session \<Rightarrow> session" where
  "save env store_history comment s =
     (let flushed =
            (if store_history
             then map (\<lambda>(index, edit_data).
                         history_row_of env comment (length (edits s)) index edit_data)
                    (enumerate 0 (edits s))
             else [])
      in s\<lparr>db := (db s)\<lparr>history_tbl := history_tbl (db s) @ flushed\<rparr>, edits := [],
           in_transaction := False\<rparr>)"

text \<open>
  \<^verbatim>\<open>initialize\<close>: the three \<^verbatim>\<open>CREATE TABLE IF NOT EXISTS\<close> leave existing tables as they
  are; then one all-NULL context row is inserted, whatever the table holds, and the
  session is saved.
\<close>

definition initialize :: "environment \<Rightarrow> session \<Rightarrow> session" where
  "initialize env s =
     (let new_id = next_id (map context_id (context_tbl (db s)));
          studio = \<lparr>context_id = new_id, project = None, category = None, entity = None\<rparr>
      in save env True [] (s\<lparr>db := (db s)\<lparr>context_tbl := context_tbl (db s) @ [studio]\<rparr>\<rparr>))"

definition empty_store :: store where
  "empty_store = \<lparr>context_tbl = [], package_tbl = [], history_tbl = []\<rparr>"

text \<open>\<^verbatim>\<open>__enter__\<close> on a database file holding \<open>d\<close>: the edit buffer starts empty and
  no transaction is open.\<close>

definition open_session :: "bool \<Rightarrow> store \<Rightarrow> session" where
  "open_session production d =
     \<lparr>load_production = production, db = d, edits = [], in_transaction = False\<rparr>"

text \<open>\<^verbatim>\<open>insert_context\<close> called on a session: its INSERT leaves a write transaction open.\<close>

definition insert_context_call ::
  "session \<Rightarrow> string option list \<Rightarrow> (error + nat) \<times> session" where
  "insert_context_call s contexts =
     (case insert_context (db s) contexts of
        Inl err \<Rightarrow> (Inl err, s)
      | Inr (cid, d1) \<Rightarrow> (Inr cid, s\<lparr>db := d1, in_transaction := True\<rparr>))"

section \<open>Package ledger: adding and removing\<close>

text \<open>
  \<^verbatim>\<open>raise message\<close> with the second component of \<^verbatim>\<open>validate_context\<close>'s result: raising
  \<^verbatim>\<open>None\<close> is a \<^verbatim>\<open>TypeError\<close> in Python.
\<close>

fun raise_message :: "error option \<Rightarrow> error" where
  "raise_message (Some exc) = exc"
| "raise_message None = TypeError ''exceptions must derive from BaseException''"

text \<open>The part of \<^verbatim>\<open>add_package\<close> after the validation block.\<close>

definition add_package_row ::
  "session \<Rightarrow> string option list \<Rightarrow> string \<Rightarrow> string option \<Rightarrow> string option
     \<Rightarrow> (error + nat) \<times> session" where
  "add_package_row s contexts package_name stp sw =
     (case get_context_row_id (db s) contexts of
        Inl err \<Rightarrow> (Inl err, s)
      | Inr found \<Rightarrow>
          (case (if \<not> truthy_id found then insert_context (db s) contexts
                 else Inr (the found, db s)) of
             Inl err \<Rightarrow> (Inl err, s)
           | Inr (cid, db1) \<Rightarrow>
               (let lastrowid = next_id (map rowid (package_tbl db1));
                    db2 = db1\<lparr>package_tbl := package_tbl db1 @
                            [\<lparr>rowid = lastrowid, pkg_context_id = cid, name = package_name,
                              step = stp, software = sw\<rparr>]\<rparr>;
                    edit = \<lparr>edit_context = contexts, edit_package_name = package_name,
                            edit_step = stp, edit_software = sw, edit_operation = INSTALL\<rparr>
                in (Inr lastrowid,
                    s\<lparr>db := db2, edits := edits s @ [edit], in_transaction := True\<rparr>))))"

definition add_package ::
  "resolver \<Rightarrow> session \<Rightarrow> string option list \<Rightarrow> string \<Rightarrow> string option \<Rightarrow> string option
     \<Rightarrow> bool \<Rightarrow> (error + nat) \<times> session" where
  "add_package rez s contexts package_name stp sw validate =
     (if validate
      then (case get_package_list rez (db s) contexts stp sw False of
              Inl err \<Rightarrow> (Inl err, s)
            | Inr all_packages \<Rightarrow>
                (case validate_context rez (all_packages @ [package_name]) of
                   Inl exc \<Rightarrow> (Inl exc, s)
                 | Inr (validation_status, message) \<Rightarrow>
                     if \<not> validation_status then (Inl (raise_message message), s)
                     else add_package_row s contexts package_name stp sw))
      else add_package_row s contexts package_name stp sw)"

text \<open>The SELECT of \<^verbatim>\<open>remove_package\<close>: the rowids of the rows with this name and context
  id whose step and software satisfy \<^verbatim>\<open>= ?\<close> or \<^verbatim>\<open>IS NULL\<close>.\<close>

definition select_rowids ::
  "store \<Rightarrow> string \<Rightarrow> nat \<Rightarrow> string option \<Rightarrow> string option \<Rightarrow> nat list" where
  "select_rowids d package_name cid stp sw =
     map rowid
       (filter (\<lambda>r. name r = package_name \<and> pkg_context_id r = cid
                     \<and> condition stp (step r) \<and> condition sw (software r))
          (package_tbl d))"

text \<open>\<^verbatim>\<open>all_packages.remove(package_name)\<close>: removes the first occurrence, and raises
  \<^verbatim>\<open>ValueError\<close> when there is none.\<close>

definition list_remove :: "string list \<Rightarrow> string \<Rightarrow> error + string list" where
  "list_remove xs x =
     (if x \<in> set xs then Inr (remove1 x xs)
      else Inl (ValueError ''list.remove(x): x not in list''))"

text \<open>The part of \<^verbatim>\<open>remove_package\<close> after the validation block.\<close>

definition delete_package_row ::
  "session \<Rightarrow> string option list \<Rightarrow> string \<Rightarrow> string option \<Rightarrow> string option \<Rightarrow> nat
     \<Rightarrow> (error + unit) \<times> session" where
  "delete_package_row s contexts package_name stp sw package_row_id =
     (let db1 = (db s)\<lparr>package_tbl := filter (\<lambda>r. rowid r \<noteq> package_row_id)
                                            (package_tbl (db s))\<rparr>;
          edit = \<lparr>edit_context = contexts, edit_package_name = package_name,
                  edit_step = stp, edit_software = sw, edit_operation = UNINSTALL\<rparr>
      in (Inr (), s\<lparr>db := db1, edits := edits s @ [edit], in_transaction := True\<rparr>))"

definition remove_package ::
  "resolver \<Rightarrow> session \<Rightarrow> string option list \<Rightarrow> string \<Rightarrow> string option \<Rightarrow> string option
     \<Rightarrow> bool \<Rightarrow> (error + unit) \<times> session" where
  "remove_package rez s contexts package_name stp sw validate =
     (case get_context_row_id (db s) contexts of
        Inl err \<Rightarrow> (Inl err, s)
      | Inr found \<Rightarrow>
          if \<not> truthy_id found
          then (Inl (ValueError (''Context '' @ [CHR 0x27] @ join_contexts contexts
                                  @ [CHR 0x27] @ '' doesn't exist.'')), s)
          else
            (let package_row_id =
                   first_or_None (select_rowids (db s) package_name (the found) stp sw)
             in if \<not> truthy_id package_row_id
                then (Inl (ValueError (''Package '' @ [CHR 0x27] @ package_name
                                        @ [CHR 0x27] @ '' doesn't exists.'')), s)
                else if validate
                then (case get_package_list rez (db s) contexts stp sw False of
                        Inl err \<Rightarrow> (Inl err, s)
                      | Inr all_packages \<Rightarrow>
                          (case list_remove all_packages package_name of
                             Inl err \<Rightarrow> (Inl err, s)
                           | Inr remaining \<Rightarrow>
                               (case validate_context rez remaining of
                                  Inl exc \<Rightarrow> (Inl exc, s)
                                | Inr (validation_status, message) \<Rightarrow>
                                    if \<not> validation_status
                                    then (Inl (raise_message message), s)
                                    else delete_package_row s contexts package_name stp sw
                                           (the package_row_id))))
                else delete_package_row s contexts package_name stp sw (the package_row_id)))"

section \<open>Deployment\<close>

text \<open>
  What \<^verbatim>\<open>deploy\<close> touches outside the session: the production database file (absent or
  holding a store), the history folder (absent, or the files in it with their contents),
  and the trace of the I/O calls made so far, in order.
\<close>

datatype io_step =
  Makedirs
| ConnectProduction
| ConnectBackup string
| BackupProduction string
| CopyToProduction

record world =
  production_file :: "store option"
  history_folder :: "(string \<times> store) list option"
  io_log :: "io_step list"

text \<open>The store a connection reads from a database file; \<^verbatim>\<open>sqlite3.connect\<close> creates a
  missing file, empty.\<close>

fun stored :: "store option \<Rightarrow> store" where
  "stored None = empty_store"
| "stored (Some d) = d"

fun folder_files :: "(string \<times> store) list option \<Rightarrow> (string \<times> store) list" where
  "folder_files None = []"
| "folder_files (Some files) = files"

text \<open>Writing a file of a folder: an existing file of that name is replaced, a new one is
  added.\<close>

fun put_file :: "string \<Rightarrow> store \<Rightarrow> (string \<times> store) list \<Rightarrow> (string \<times> store) list" where
  "put_file path d [] = [(path, d)]"
| "put_file path d ((p, old) # files) =
     (if p = path then (p, d) # files else (p, old) # put_file path d files)"

text \<open>Connecting to a file of a folder creates it, empty, when it is missing.\<close>

definition touch_file :: "string \<Rightarrow> (string \<times> store) list \<Rightarrow> (string \<times> store) list" where
  "touch_file path files =
     (if path \<in> set (map fst files) then files else files @ [(path, empty_store)])"

text \<open>
  How a call ends: it returns, it raises an exception, or it never returns.
\<close>

datatype outcome = Returned | Raises error | Blocked

text \<open>
  One I/O call: it is recorded in the trace; the parameter \<open>fails\<close> says which calls
  raise and what; a call that does not raise has its effect.
\<close>

definition attempt ::
  "(io_step \<Rightarrow> error option) \<Rightarrow> io_step \<Rightarrow> (world \<Rightarrow> world) \<Rightarrow> world \<Rightarrow> outcome \<times> world" where
  "attempt fails st effect w =
     (let w1 = w\<lparr>io_log := io_log w @ [st]\<rparr>
      in case fails st of Some err \<Rightarrow> (Raises err, w1) | None \<Rightarrow> (Returned, effect w1))"

text \<open>Sequencing: only a call that returned is followed by the next one.\<close>

definition and_then ::
  "outcome \<times> world \<Rightarrow> (world \<Rightarrow> outcome \<times> world) \<Rightarrow> outcome \<times> world" where
  "and_then r f = (case r of (Returned, w) \<Rightarrow> f w | (out, w) \<Rightarrow> (out, w))"

text \<open>\<^verbatim>\<open>_compute_history_database_path\<close>, as the file name inside the history folder; the
  parameter is \<^verbatim>\<open>datetime.now().strftime('%y_%m_%d_%H_%M_%S_%f')\<close>.\<close>

definition compute_history_database_path :: "string \<Rightarrow> string" where
  "compute_history_database_path timestamp = timestamp @ ''.db''"

text \<open>The block of \<^verbatim>\<open>deploy\<close> under \<^verbatim>\<open>if bool(get_rez_config().keep_history)\<close>.\<close>

definition backup_production ::
  "string \<Rightarrow> (io_step \<Rightarrow> error option) \<Rightarrow> world \<Rightarrow> outcome \<times> world" where
  "backup_production timestamp fails w =
     and_then
       (if history_folder w = None
        then attempt fails Makedirs (\<lambda>w1. w1\<lparr>history_folder := Some []\<rparr>) w
        else (Returned, w))
       (\<lambda>w1.
          let db_backup_path = compute_history_database_path timestamp
          in and_then
               (attempt fails ConnectProduction
                  (\<lambda>w2. w2\<lparr>production_file := Some (stored (production_file w2))\<rparr>) w1)
               (\<lambda>w2.
                  and_then
                    (attempt fails (ConnectBackup db_backup_path)
                       (\<lambda>w3. w3\<lparr>history_folder :=
                                   Some (touch_file db_backup_path
                                           (folder_files (history_folder w3)))\<rparr>) w2)
                    (attempt fails (BackupProduction db_backup_path)
                       (\<lambda>w4. w4\<lparr>history_folder :=
                                   Some (put_file db_backup_path (stored (production_file w4))
                                           (folder_files (history_folder w4)))\<rparr>))))"

text \<open>
  \<^verbatim>\<open>self.connection.backup(production_db)\<close>, the copy of the session's connection over
  the production database. While the source connection has a write transaction open,
  SQLite answers every step of the backup with \<^verbatim>\<open>SQLITE_BUSY\<close> before it touches the
  destination, and the \<^verbatim>\<open>sqlite3\<close> module sleeps and retries for ever: the call never
  returns and the production database is left as it is. Otherwise the call raises what
  \<open>fails\<close> says, or writes the session's store.
\<close>

definition connection_backup ::
  "(io_step \<Rightarrow> error option) \<Rightarrow> session \<Rightarrow> world \<Rightarrow> outcome \<times> world" where
  "connection_backup fails s w =
     (if in_transaction s
      then (Blocked, w\<lparr>io_log := io_log w @ [CopyToProduction]\<rparr>)
      else attempt fails CopyToProduction (\<lambda>w1. w1\<lparr>production_file := Some (db s)\<rparr>) w)"

text \<open>The last block of \<^verbatim>\<open>deploy\<close>: the production database is opened and the session's
  connection is copied over it.\<close>

definition copy_to_production ::
  "(io_step \<Rightarrow> error option) \<Rightarrow> session \<Rightarrow> world \<Rightarrow> outcome \<times> world" where
  "copy_to_production fails s w =
     and_then
       (attempt fails ConnectProduction
          (\<lambda>w1. w1\<lparr>production_file := Some (stored (production_file w1))\<rparr>) w)
       (connection_backup fails s)"

definition deploy ::
  "bool \<Rightarrow> string \<Rightarrow> (io_step \<Rightarrow> error option) \<Rightarrow> session \<Rightarrow> world \<Rightarrow> outcome \<times> world" where
  "deploy keep_history timestamp fails s w =
     (if load_production s
      then (Raises (RuntimeError ''Cannot deploy a production database.''), w)
      else and_then
             (if keep_history then backup_production timestamp fails w else (Returned, w))
             (copy_to_production fails s))"

section \<open>Sequences of calls\<close>

datatype call =
  AddPackage "string option list" string "string option" "string option" bool
| RemovePackage "string option list" string "string option" "string option" bool

fun apply_call :: "resolver \<Rightarrow> session \<Rightarrow> call \<Rightarrow> error option \<times> session" where
  "apply_call rez s (AddPackage contexts package_name stp sw validate) =
     (case add_package rez s contexts package_name stp sw validate of
        (Inl err, s1) \<Rightarrow> (Some err, s1) | (Inr _, s1) \<Rightarrow> (None, s1))"
| "apply_call rez s (RemovePackage contexts package_name stp sw validate) =
     (case remove_package rez s contexts package_name stp sw validate of
        (Inl err, s1) \<Rightarrow> (Some err, s1) | (Inr _, s1) \<Rightarrow> (None, s1))"

text \<open>The calls one after the other; the first exception ends the run.\<close>

fun run_calls :: "resolver \<Rightarrow> session \<Rightarrow> call list \<Rightarrow> error + session" where
  "run_calls rez s [] = Inr s"
| "run_calls rez s (c # cs) =
     (case apply_call rez s c of
        (Some err, _) \<Rightarrow> Inl err
      | (None, s1) \<Rightarrow> run_calls rez s1 cs)"

text \<open>The record a successful call appends to the edit buffer.\<close>

fun edit_of :: "call \<Rightarrow> HistoryEdit" where
  "edit_of (AddPackage contexts package_name stp sw validate) =
     \<lparr>edit_context = contexts, edit_package_name = package_name, edit_step = stp,
      edit_software = sw, edit_operation = INSTALL\<rparr>"
| "edit_of (RemovePackage contexts package_name stp sw validate) =
     \<lparr>edit_context = contexts, edit_package_name = package_name, edit_step = stp,
      edit_software = sw, edit_operation = UNINSTALL\<rparr>"

section \<open>Example values\<close>

definition env0 :: environment where
  "env0 = \<lparr>getuser = ''user'', now = (\<lambda>i. i)\<rparr>"

definition accepting_resolver :: resolver where
  "accepting_resolver packages = Completed True"

definition unsolved_resolver :: resolver where
  "unsolved_resolver packages = Completed False"

definition rez_error_resolver :: resolver where
  "rez_error_resolver packages = Raised (RezError ''Mocked message'')"

definition crashing_resolver :: resolver where
  "crashing_resolver packages = Raised (OSError ''packages path is not readable'')"

definition studio_session :: session where
  "studio_session = initialize env0 (open_session False empty_store)"

definition production_session :: session where
  "production_session = initialize env0 (open_session True empty_store)"

definition example_world :: world where
  "example_world = \<lparr>production_file = None, history_folder = None, io_log = []\<rparr>"

definition example_calls :: "call list" where
  "example_calls =
     [AddPackage [] ''packageA'' None None False,
      AddPackage [] ''packageB'' (Some ''stepA'') None False,
      RemovePackage [] ''packageA'' None None False]"

definition no_faults :: "io_step \<Rightarrow> error option" where
  "no_faults st = None"

definition failing_backup :: "io_step \<Rightarrow> error option" where
  "failing_backup st =
     (case st of BackupProduction _ \<Rightarrow> Some (OperationalError ''database or disk is full'')
      | _ \<Rightarrow> None)"

definition frozen_time :: string where
  "frozen_time = ''20_01_01_00_00_00_000000''"

definition unsaved_session :: session where
  "unsaved_session =
     snd (add_package accepting_resolver studio_session [] ''maya-2024'' None None False)"

definition deployed_once_world :: world where
  "deployed_once_world = snd (deploy True frozen_time no_faults studio_session example_world)"

section \<open>Notions used to state the properties\<close>

text \<open>The triple of a context row.\<close>

definition triple_of :: "context_row \<Rightarrow> string option \<times> string option \<times> string option" where
  "triple_of r = (project r, category r, entity r)"

text \<open>No two context rows share a triple.\<close>

definition unique_triples :: "store \<Rightarrow> bool" where
  "unique_triples d = distinct (map triple_of (context_tbl d))"

text \<open>The all-NULL rows: the studio root.\<close>

definition studio_rows :: "store \<Rightarrow> context_row list" where
  "studio_rows d = filter (\<lambda>r. triple_of r = (None, None, None)) (context_tbl d)"

text \<open>
  What SQLite guarantees of the ids, and the code of the foreign key: row ids are positive
  and pairwise different in each table, and every package row names the id of a context
  row.
\<close>

definition wf_store :: "store \<Rightarrow> bool" where
  "wf_store d =
     (distinct (map context_id (context_tbl d))
      \<and> 0 \<notin> set (map context_id (context_tbl d))
      \<and> distinct (map rowid (package_tbl d))
      \<and> 0 \<notin> set (map rowid (package_tbl d))
      \<and> set (map pkg_context_id (package_tbl d)) \<subseteq> set (map context_id (context_tbl d)))"

text \<open>The triples are unique and the studio root is among them.\<close>

definition studio_once :: "store \<Rightarrow> bool" where
  "studio_once d = (unique_triples d \<and> (None, None, None) \<in> set (map triple_of (context_tbl d)))"

text \<open>The package rows equal to a tuple on context id, name, step and software, where
  \<open>None\<close> is equal to NULL only.\<close>

definition matching_rows ::
  "store \<Rightarrow> nat \<Rightarrow> string \<Rightarrow> string option \<Rightarrow> string option \<Rightarrow> package_row list" where
  "matching_rows d cid package_name stp sw =
     filter (\<lambda>r. pkg_context_id r = cid \<and> name r = package_name \<and> step r = stp
                   \<and> software r = sw)
       (package_tbl d)"

text \<open>The two \<^verbatim>\<open>ValueError\<close>s of \<^verbatim>\<open>remove_package\<close>.\<close>

definition unknown_context :: "string option list \<Rightarrow> error" where
  "unknown_context contexts =
     ValueError (''Context '' @ [CHR 0x27] @ join_contexts contexts @ [CHR 0x27]
                  @ '' doesn't exist.'')"

definition unknown_package :: "string \<Rightarrow> error" where
  "unknown_package package_name =
     ValueError (''Package '' @ [CHR 0x27] @ package_name @ [CHR 0x27] @ '' doesn't exists.'')"

section \<open>More example values\<close>

definition project_calls :: "call list" where
  "project_calls =
     [AddPackage [Some ''project''] ''packageB'' None None False,
      AddPackage [Some ''project'', Some ''category''] ''packageC'' None None False,
      RemovePackage [Some ''project''] ''packageB'' None None False]"

definition duplicate_session :: session where
  "duplicate_session =
     snd (add_package accepting_resolver
            (snd (add_package accepting_resolver studio_session [] ''packageA'' None None False))
            [] ''packageA'' None None False)"

definition stepped_session :: session where
  "stepped_session =
     snd (add_package accepting_resolver
            (snd (add_package accepting_resolver studio_session
                    [] ''packageB'' (Some ''stepA'') None False))
            [] ''packageB'' None None False)"

section \<open>The listing as the specification words it\<close>

text \<open>
  The definitions of this section follow the words of the specification of
  \<^verbatim>\<open>listPackages\<close>, not the code; the properties below compare them with
  \<open>get_package_list\<close>.

  Deduplication that keeps the first occurrence of every element.
\<close>

fun keep_first :: "'a list \<Rightarrow> 'a list" where
  "keep_first [] = []"
| "keep_first (x # xs) = x # keep_first (filter (\<lambda>y. y \<noteq> x) xs)"

text \<open>The ancestor chain of a triple, broadest scope first.\<close>

definition ancestor_chain ::
  "string option \<times> string option \<times> string option
     \<Rightarrow> (string option \<times> string option \<times> string option) list" where
  "ancestor_chain pc =
     (case pc of (p, c, e) \<Rightarrow> [(None, None, None), (p, None, None), (p, c, None), (p, c, e)])"

text \<open>\<^verbatim>\<open>findId\<close>: the id of the first context row with exactly this triple, if any.\<close>

definition find_id ::
  "store \<Rightarrow> string option \<times> string option \<times> string option \<Rightarrow> nat option" where
  "find_id d t =
     (case filter (\<lambda>r. triple_of r = t) (context_tbl d) of
        [] \<Rightarrow> None
      | r # _ \<Rightarrow> Some (context_id r))"

text \<open>Dropping the absent ids.\<close>

definition present_ids :: "nat option list \<Rightarrow> nat list" where
  "present_ids found = concat (map (\<lambda>v. case v of None \<Rightarrow> [] | Some cid \<Rightarrow> [cid]) found)"

text \<open>A step (or software) was requested: the argument is given and is not the empty
  string, which Python takes for false.\<close>

definition requested :: "string option \<Rightarrow> bool" where
  "requested v = (v \<noteq> None \<and> v \<noteq> Some [])"

text \<open>The axis groups to query, in their fixed order, as pairs (step, software) with
  \<open>None\<close> for "no step" and "no software".\<close>

definition axis_groups ::
  "string option \<Rightarrow> string option \<Rightarrow> (string option \<times> string option) list" where
  "axis_groups stp sw =
     [(None, None)]
     @ (if requested stp then [(stp, None)] else [])
     @ (if requested sw then [(None, sw)] else [])
     @ (if requested stp \<and> requested sw then [(stp, sw)] else [])"

text \<open>The names of the rows of one context id in one axis group, in table order.\<close>

definition names_in :: "store \<Rightarrow> nat \<Rightarrow> string option \<times> string option \<Rightarrow> string list" where
  "names_in d cid g =
     map name (filter (\<lambda>r. pkg_context_id r = cid \<and> step r = fst g \<and> software r = snd g)
                 (package_tbl d))"

definition list_packages_spec ::
  "store \<Rightarrow> string option \<times> string option \<times> string option
     \<Rightarrow> string option \<Rightarrow> string option \<Rightarrow> string list" where
  "list_packages_spec d pc stp sw =
     keep_first
       (concat (map (\<lambda>cid. concat (map (names_in d cid) (axis_groups stp sw)))
                  (keep_first (present_ids (map (find_id d) (ancestor_chain pc))))))"

text \<open>The scenario of the repository's test of the listing.\<close>

definition override_calls :: "call list" where
  "override_calls =
     [AddPackage [] ''packageA'' None None False,
      AddPackage [Some ''project''] ''packageB'' None None False,
      AddPackage [Some ''project'', Some ''category''] ''packageC'' None None False,
      AddPackage [Some ''project'', Some ''category'', Some ''entity''] ''packageD''
        None None False,
      AddPackage [] ''packageE'' (Some ''stepA'') None False]"

definition override_session :: session where
  "override_session = projr (run_calls accepting_resolver studio_session override_calls)"

section \<open>Adding and then removing the same tuples\<close>

text \<open>A tuple (context, name, step, software) as \<^verbatim>\<open>add_package\<close> and
  \<^verbatim>\<open>remove_package\<close> take it, and the two calls for it with validation disabled.\<close>

type_synonym package_tuple = "string option list \<times> string \<times> string option \<times> string option"

fun add_call :: "package_tuple \<Rightarrow> call" where
  "add_call (contexts, package_name, stp, sw) = AddPackage contexts package_name stp sw False"

fun remove_call :: "package_tuple \<Rightarrow> call" where
  "remove_call (contexts, package_name, stp, sw) =
     RemovePackage contexts package_name stp sw False"

text \<open>What a package row holds, its rowid apart.\<close>

definition content :: "package_row \<Rightarrow> nat \<times> string \<times> string option \<times> string option" where
  "content r = (pkg_context_id r, name r, step r, software r)"

text \<open>A tuple with its context replaced by the id the lookup gives in a store
  (0, which is no id, when the lookup gives none).\<close>

definition resolved :: "store \<Rightarrow> package_tuple \<Rightarrow> nat \<times> string \<times> string option \<times> string option" where
  "resolved d t =
     (case t of (contexts, package_name, stp, sw) \<Rightarrow>
        (case get_context_row_id d contexts of
           Inr (Some cid) \<Rightarrow> (cid, package_name, stp, sw)
         | _ \<Rightarrow> (0, package_name, stp, sw)))"

text \<open>A studio root with two packages, and one addition followed by its removal.\<close>

definition xy_session :: session where
  "xy_session =
     snd (add_package accepting_resolver
            (snd (add_package accepting_resolver studio_session [] ''packageX'' None None False))
            [] ''packageY'' None None False)"

definition round_trip :: "call list" where
  "round_trip = map add_call [([], ''packageX'', None, None)]
                @ map remove_call [([], ''packageX'', None, None)]"

text \<open>No row of the store is equal to the tuple, its context looked up in the store.\<close>

definition fresh_tuple :: "store \<Rightarrow> package_tuple \<Rightarrow> bool" where
  "fresh_tuple d t =
     (case t of (contexts, package_name, stp, sw) \<Rightarrow>
        (case get_context_row_id d contexts of
           Inr (Some cid) \<Rightarrow> matching_rows d cid package_name stp sw = []
         | _ \<Rightarrow> True))"

text \<open>Two tuples that no row of \<open>xy_session\<close> is equal to, one of them in a context
  that does not exist yet.\<close>

definition zw_added :: "package_tuple list" where
  "zw_added = [([Some ''project''], ''packageZ'', Some ''stepA'', None),
               ([], ''packageW'', None, None)]"

section \<open>Properties\<close>

subsection \<open>A failed call leaves the session as it was; a successful one appends its record\<close>

lemma add_package_row_fails:
  "add_package_row s contexts package_name stp sw = (Inl err, s1) \<Longrightarrow> s1 = s"
  by (auto simp: add_package_row_def Let_def split: sum.splits prod.splits if_splits)

lemma add_package_row_edits:
  "add_package_row s contexts package_name stp sw = (Inr r, s1) \<Longrightarrow>
     edits s1 = edits s @ [edit_of (AddPackage contexts package_name stp sw v)]"
  by (auto simp: add_package_row_def Let_def split: sum.splits prod.splits if_splits)

lemma add_package_fails:
  "add_package rez s contexts package_name stp sw validate = (Inl err, s1) \<Longrightarrow> s1 = s"
  by (auto simp: add_package_def dest: add_package_row_fails
           split: sum.splits prod.splits if_splits)

lemma add_package_edits:
  "add_package rez s contexts package_name stp sw validate = (Inr r, s1) \<Longrightarrow>
     edits s1 = edits s @ [edit_of (AddPackage contexts package_name stp sw validate)]"
  by (auto simp: add_package_def dest: add_package_row_edits[where v = validate]
           split: sum.splits prod.splits if_splits)

lemma remove_package_fails:
  "remove_package rez s contexts package_name stp sw validate = (Inl err, s1) \<Longrightarrow> s1 = s"
  by (auto simp: remove_package_def delete_package_row_def Let_def
           split: sum.splits prod.splits if_splits)

lemma remove_package_edits:
  "remove_package rez s contexts package_name stp sw validate = (Inr r, s1) \<Longrightarrow>
     edits s1 = edits s @ [edit_of (RemovePackage contexts package_name stp sw validate)]"
  by (auto simp: remove_package_def delete_package_row_def Let_def
           split: sum.splits prod.splits if_splits)

lemma apply_call_edits:
  "apply_call rez s c = (None, s1) \<Longrightarrow> edits s1 = edits s @ [edit_of c]"
  by (cases c) (auto dest: add_package_edits remove_package_edits split: sum.splits prod.splits)

lemma apply_call_fails:
  "apply_call rez s c = (Some err, s1) \<Longrightarrow> s1 = s"
  by (cases c) (auto dest: add_package_fails remove_package_fails split: sum.splits prod.splits)

lemma run_calls_edits:
  "run_calls rez s calls = Inr s1 \<Longrightarrow> edits s1 = edits s @ map edit_of calls"
proof (induction calls arbitrary: s)
  case Nil
  then show ?case by simp
next
  case (Cons c cs)
  then obtain s2 where c: "apply_call rez s c = (None, s2)" and r: "run_calls rez s2 cs = Inr s1"
    by (auto split: prod.splits option.splits)
  from apply_call_edits[OF c] Cons.IH[OF r] show ?case by simp
qed

lemma edits_save: "edits (save env store_history comment s) = []"
  by (simp add: save_def Let_def)

subsection \<open>Deployment direction\<close>

text \<open>
  Claim C3. On a session opened in production mode, \<open>deploy\<close> always returns by raising the
  \<^verbatim>\<open>RuntimeError\<close> "Cannot deploy a production database." (the spec's
  \<^verbatim>\<open>InvalidDeployDirection\<close>) and performs no I/O: the production file, the history
  folder and the trace of I/O calls are what they were, whatever the retention setting,
  the clock and the faults of the file system.
\<close>

theorem deploy_production_session_fails:
  "load_production s \<Longrightarrow>
     deploy keep_history timestamp fails s w
       = (Raises (RuntimeError ''Cannot deploy a production database.''), w)"
  by (simp add: deploy_def)

theorem deploy_production_session_fails_witness:
  "load_production production_session
   \<and> deploy True ''20_01_01_00_00_00_000000'' (\<lambda>st. None) production_session example_world
       = (Raises (RuntimeError ''Cannot deploy a production database.''), example_world)"
proof -
  have prod: "load_production production_session"
    by code_simp
  from deploy_production_session_fails [OF prod] prod show ?thesis by simp
qed

subsection \<open>Edit buffer accounting\<close>

text \<open>
  Claim C7. After a run of N \<open>add_package\<close>/\<open>remove_package\<close> calls with no save in
  between, the edit buffer is the buffer before the run followed by the N records of the
  calls, in call order; started on an empty buffer (a new session, or just after a save)
  it holds exactly N records. After \<open>save\<close> the buffer is empty, whether
  \<open>store_history\<close> was true or false.
\<close>

theorem edit_buffer_accounting:
  "run_calls rez s calls = Inr s1 \<Longrightarrow>
     edits s1 = edits s @ map edit_of calls
     \<and> (edits s = [] \<longrightarrow> length (edits s1) = length calls)
     \<and> edits (save env store_history comment s1) = []
     \<and> edits (save env store_history comment s) = []"
  by (simp add: run_calls_edits edits_save)

theorem edit_buffer_accounting_witness:
  "run_calls accepting_resolver studio_session example_calls
       = Inr (projr (run_calls accepting_resolver studio_session example_calls))
   \<and> edits studio_session = []
   \<and> length (edits (projr (run_calls accepting_resolver studio_session example_calls))) = 3
   \<and> edits (save env0 False []
               (projr (run_calls accepting_resolver studio_session example_calls))) = []"
proof -
  have run: "run_calls accepting_resolver studio_session example_calls
       = Inr (projr (run_calls accepting_resolver studio_session example_calls))"
    by code_simp
  have empty: "edits studio_session = []"
    by code_simp
  have len: "length example_calls = 3"
    by (simp add: example_calls_def)
  from edit_buffer_accounting [OF run, of env0 False "[]"] empty len run
  show ?thesis by simp
qed

subsection \<open>The validation gateway\<close>

text \<open>
  Claim C8, as stated, fails: \<open>validate_context\<close> has a single handler,
  \<^verbatim>\<open>except RezError\<close>. A resolver that raises any other exception, here an
  \<^verbatim>\<open>OSError\<close>, is not caught: the exception reaches the caller.
\<close>

theorem validate_context_lets_other_exceptions_through:
  "validate_context crashing_resolver [''python'']
     = Inl (OSError ''packages path is not readable'')"
  by (simp add: validate_context_def crashing_resolver_def)

text \<open>
  Claim C8, amended. A \<^verbatim>\<open>RezError\<close> raised by the external resolver is caught and
  returned as \<open>(False, that error)\<close>; an exception that is not a \<^verbatim>\<open>RezError\<close> propagates
  to the caller; and when the resolver raises nothing, the result is
  \<open>(status == solved, None)\<close>.
\<close>

theorem validate_context_catches_RezError:
  "(rez packages = Raised exc \<and> is_RezError exc
      \<longrightarrow> validate_context rez packages = Inr (False, Some exc))
   \<and> (rez packages = Raised exc \<and> \<not> is_RezError exc
      \<longrightarrow> validate_context rez packages = Inl exc)
   \<and> (rez packages = Completed ok \<longrightarrow> validate_context rez packages = Inr (ok, None))"
  by (simp add: validate_context_def)

theorem validate_context_catches_RezError_witness:
  "rez_error_resolver [''anotherTool''] = Raised (RezError ''Mocked message'')
   \<and> is_RezError (RezError ''Mocked message'')
   \<and> validate_context rez_error_resolver [''anotherTool'']
       = Inr (False, Some (RezError ''Mocked message''))"
proof -
  have raised: "rez_error_resolver [''anotherTool''] = Raised (RezError ''Mocked message'')"
    by (simp add: rez_error_resolver_def)
  have caught: "is_RezError (RezError ''Mocked message'')"
    by simp
  from validate_context_catches_RezError
         [of rez_error_resolver "[''anotherTool'']" "RezError ''Mocked message''"]
       raised caught
  show ?thesis by blast
qed

subsection \<open>Deployment: backup first, then the copy\<close>

lemma put_file_touched:
  "path \<notin> fst ` set files \<Longrightarrow> put_file path d (files @ [(path, d0)]) = files @ [(path, d)]"
  by (induction files) auto

lemma put_file_names:
  "path \<in> fst ` set files \<Longrightarrow> map fst (put_file path d files) = map fst files"
  by (induction files) force+

lemma put_file_content:
  "map_of (put_file path d files) path = Some d"
  by (induction files) auto

lemma in_transaction_save: "\<not> in_transaction (save env store_history comment s)"
  by (simp add: save_def Let_def)

lemma in_transaction_initialize: "\<not> in_transaction (initialize env s)"
  by (simp add: initialize_def Let_def in_transaction_save)

lemma in_transaction_open_session: "\<not> in_transaction (open_session production d)"
  by (simp add: open_session_def)

lemma in_transaction_add_package_row:
  "add_package_row s contexts package_name stp sw = (Inr rid, s1) \<Longrightarrow> in_transaction s1"
  by (auto simp: add_package_row_def Let_def split: sum.splits prod.splits if_splits)

lemma in_transaction_add_package:
  "add_package rez s contexts package_name stp sw validate = (Inr rid, s1) \<Longrightarrow>
     in_transaction s1"
  by (auto simp: add_package_def dest: in_transaction_add_package_row
           split: sum.splits prod.splits if_splits)

lemma in_transaction_remove_package:
  "remove_package rez s contexts package_name stp sw validate = (Inr u, s1) \<Longrightarrow>
     in_transaction s1"
  by (auto simp: remove_package_def delete_package_row_def Let_def
           split: sum.splits prod.splits if_splits)

lemma backup_production_ok:
  assumes "\<forall>st. fails st = None"
    and "compute_history_database_path timestamp \<notin> fst ` set (folder_files (history_folder w))"
  shows "backup_production timestamp fails w =
     (Returned, \<lparr>production_file = Some (stored (production_file w)),
             history_folder = Some (folder_files (history_folder w)
                @ [(compute_history_database_path timestamp, stored (production_file w))]),
             io_log = io_log w @ (if history_folder w = None then [Makedirs] else [])
                @ [ConnectProduction, ConnectBackup (compute_history_database_path timestamp),
                   BackupProduction (compute_history_database_path timestamp)]\<rparr>)"
  using assms
  by (cases "history_folder w")
     (simp_all add: backup_production_def and_then_def attempt_def Let_def touch_file_def
        put_file_touched image_iff)

lemma backup_production_existing:
  assumes "\<forall>st. fails st = None"
    and "compute_history_database_path timestamp \<in> fst ` set (folder_files (history_folder w))"
  shows "backup_production timestamp fails w =
     (Returned, \<lparr>production_file = Some (stored (production_file w)),
             history_folder = Some (put_file (compute_history_database_path timestamp)
                (stored (production_file w)) (folder_files (history_folder w))),
             io_log = io_log w
                @ [ConnectProduction, ConnectBackup (compute_history_database_path timestamp),
                   BackupProduction (compute_history_database_path timestamp)]\<rparr>)"
  using assms
  by (cases "history_folder w")
     (simp_all add: backup_production_def and_then_def attempt_def Let_def touch_file_def
        image_iff)

lemma backup_production_keeps_production:
  assumes "backup_production timestamp fails w = (out, w1)"
  shows "stored (production_file w1) = stored (production_file w)
     \<and> CopyToProduction \<notin> set (drop (length (io_log w)) (io_log w1))
     \<and> out \<noteq> Blocked"
  using assms
  by (auto simp: backup_production_def and_then_def attempt_def Let_def
           split: if_splits option.splits prod.splits outcome.splits)

lemma copy_to_production_blocked:
  assumes "in_transaction s" and "\<forall>st. fails st = None"
  shows "copy_to_production fails s w =
     (Blocked, w\<lparr>production_file := Some (stored (production_file w)),
                 io_log := io_log w @ [ConnectProduction, CopyToProduction]\<rparr>)"
  using assms
  by (simp add: copy_to_production_def connection_backup_def and_then_def attempt_def Let_def)

lemma copy_to_production_ok:
  assumes "\<not> in_transaction s" and "\<forall>st. fails st = None"
  shows "copy_to_production fails s w =
     (Returned, w\<lparr>production_file := Some (db s),
                   io_log := io_log w @ [ConnectProduction, CopyToProduction]\<rparr>)"
  using assms
  by (simp add: copy_to_production_def connection_backup_def and_then_def attempt_def Let_def)

text \<open>
  Claim C2, as stated, fails in two ways. The backup file is named by the clock alone:
  when the history folder already holds a file of that name (here a second \<open>deploy\<close> at
  the same clock reading, as under the frozen clock of the repository's tests),
  \<open>deploy\<close> returns and the folder holds the same files as before: no new file is
  created, the existing one is written over. And on a staging session with an unsaved
  \<open>add_package\<close> the copy over the production store never completes: \<open>deploy\<close> does not
  return and the production store is not overwritten, with retention enabled or disabled.
\<close>

theorem deploy_same_timestamp_creates_no_file:
  "fst (deploy True frozen_time no_faults studio_session deployed_once_world) = Returned
   \<and> map fst (folder_files (history_folder
        (snd (deploy True frozen_time no_faults studio_session deployed_once_world))))
     = map fst (folder_files (history_folder deployed_once_world))
   \<and> fst (deploy True frozen_time no_faults unsaved_session example_world) = Blocked
   \<and> fst (deploy False frozen_time no_faults unsaved_session example_world) = Blocked
   \<and> production_file (snd (deploy False frozen_time no_faults unsaved_session example_world))
       = Some empty_store"
  by code_simp

text \<open>
  Claim C2, amended. For a staging session whose changes are all saved (no write
  transaction is open), with history retention enabled and no I/O fault: when the history
  folder holds no file named by the current timestamp, \<open>deploy\<close> first creates exactly
  one new file of that name holding the current production store, and only afterwards
  copies the session's store over the production store; when a file of that name exists
  already, no file is added, that file is written over with the current production store,
  and the production store is then overwritten all the same. If the backup step raises,
  \<open>deploy\<close> raises the same exception, the copy to production is never made and the
  production store holds what it held. With retention disabled and all changes saved the
  history folder is left as it is and the production store is overwritten by the
  session's store. While the session has unsaved changes, \<open>deploy\<close> does not return and
  the production store holds what it held.
\<close>

theorem deploy_backup_then_copy:
  "(\<not> load_production s \<and> \<not> in_transaction s \<and> (\<forall>st. fails st = None)
      \<and> compute_history_database_path timestamp \<notin> fst ` set (folder_files (history_folder w))
    \<longrightarrow> deploy True timestamp fails s w =
          (Returned, \<lparr>production_file = Some (db s),
             history_folder = Some (folder_files (history_folder w)
                @ [(compute_history_database_path timestamp, stored (production_file w))]),
             io_log = io_log w @ (if history_folder w = None then [Makedirs] else [])
                @ [ConnectProduction, ConnectBackup (compute_history_database_path timestamp),
                   BackupProduction (compute_history_database_path timestamp),
                   ConnectProduction, CopyToProduction]\<rparr>))
   \<and> (\<not> load_production s \<and> \<not> in_transaction s \<and> (\<forall>st. fails st = None)
      \<and> compute_history_database_path timestamp \<in> fst ` set (folder_files (history_folder w))
    \<longrightarrow> deploy True timestamp fails s w =
          (Returned, \<lparr>production_file = Some (db s),
             history_folder = Some (put_file (compute_history_database_path timestamp)
                (stored (production_file w)) (folder_files (history_folder w))),
             io_log = io_log w
                @ [ConnectProduction, ConnectBackup (compute_history_database_path timestamp),
                   BackupProduction (compute_history_database_path timestamp),
                   ConnectProduction, CopyToProduction]\<rparr>)
        \<and> map fst (put_file (compute_history_database_path timestamp)
                (stored (production_file w)) (folder_files (history_folder w)))
            = map fst (folder_files (history_folder w)))
   \<and> (\<not> load_production s \<and> backup_production timestamp fails w = (Raises err, w1)
    \<longrightarrow> deploy True timestamp fails s w = (Raises err, w1)
        \<and> stored (production_file w1) = stored (production_file w)
        \<and> CopyToProduction \<notin> set (drop (length (io_log w)) (io_log w1)))
   \<and> (\<not> load_production s \<and> \<not> in_transaction s \<and> (\<forall>st. fails st = None)
    \<longrightarrow> deploy False timestamp fails s w =
          (Returned, w\<lparr>production_file := Some (db s),
                       io_log := io_log w @ [ConnectProduction, CopyToProduction]\<rparr>))
   \<and> (\<not> load_production s \<and> in_transaction s \<and> (\<forall>st. fails st = None)
    \<longrightarrow> fst (deploy keep_history timestamp fails s w) = Blocked
        \<and> stored (production_file (snd (deploy keep_history timestamp fails s w)))
            = stored (production_file w))"
proof (intro conjI impI)
  assume "\<not> load_production s \<and> \<not> in_transaction s \<and> (\<forall>st. fails st = None)
      \<and> compute_history_database_path timestamp \<notin> fst ` set (folder_files (history_folder w))"
  then show "deploy True timestamp fails s w =
          (Returned, \<lparr>production_file = Some (db s),
             history_folder = Some (folder_files (history_folder w)
                @ [(compute_history_database_path timestamp, stored (production_file w))]),
             io_log = io_log w @ (if history_folder w = None then [Makedirs] else [])
                @ [ConnectProduction, ConnectBackup (compute_history_database_path timestamp),
                   BackupProduction (compute_history_database_path timestamp),
                   ConnectProduction, CopyToProduction]\<rparr>)"
    by (simp add: deploy_def backup_production_ok and_then_def copy_to_production_ok)
next
  assume old: "\<not> load_production s \<and> \<not> in_transaction s \<and> (\<forall>st. fails st = None)
      \<and> compute_history_database_path timestamp \<in> fst ` set (folder_files (history_folder w))"
  then show "deploy True timestamp fails s w =
          (Returned, \<lparr>production_file = Some (db s),
             history_folder = Some (put_file (compute_history_database_path timestamp)
                (stored (production_file w)) (folder_files (history_folder w))),
             io_log = io_log w
                @ [ConnectProduction, ConnectBackup (compute_history_database_path timestamp),
                   BackupProduction (compute_history_database_path timestamp),
                   ConnectProduction, CopyToProduction]\<rparr>)"
    by (simp add: deploy_def backup_production_existing and_then_def copy_to_production_ok)
  from old show "map fst (put_file (compute_history_database_path timestamp)
                (stored (production_file w)) (folder_files (history_folder w)))
            = map fst (folder_files (history_folder w))"
    by (simp add: put_file_names)
next
  assume failed: "\<not> load_production s \<and> backup_production timestamp fails w = (Raises err, w1)"
  then show "deploy True timestamp fails s w = (Raises err, w1)"
    by (simp add: deploy_def and_then_def)
  from failed backup_production_keeps_production
  show "stored (production_file w1) = stored (production_file w)"
    by blast
  from failed backup_production_keeps_production
  show "CopyToProduction \<notin> set (drop (length (io_log w)) (io_log w1))"
    by blast
next
  assume "\<not> load_production s \<and> \<not> in_transaction s \<and> (\<forall>st. fails st = None)"
  then show "deploy False timestamp fails s w =
          (Returned, w\<lparr>production_file := Some (db s),
                       io_log := io_log w @ [ConnectProduction, CopyToProduction]\<rparr>)"
    by (simp add: deploy_def and_then_def copy_to_production_ok)
next
  assume open_tx: "\<not> load_production s \<and> in_transaction s \<and> (\<forall>st. fails st = None)"
  obtain out w1 where first:
    "(if keep_history then backup_production timestamp fails w else (Returned, w)) = (out, w1)"
    by (cases "if keep_history then backup_production timestamp fails w else (Returned, w)")
  have kept: "stored (production_file w1) = stored (production_file w)"
  proof (cases keep_history)
    case True
    with first backup_production_keeps_production show ?thesis by auto
  next
    case False
    with first show ?thesis by simp
  qed
  have quiet: "out = Returned"
  proof (cases keep_history)
    case True
    with first have b: "backup_production timestamp fails w = (out, w1)" by simp
    from open_tx have "\<forall>st. fails st = None" by simp
    then have "fst (backup_production timestamp fails w) = Returned"
      by (cases "compute_history_database_path timestamp
                   \<in> fst ` set (folder_files (history_folder w))")
         (simp_all add: backup_production_ok backup_production_existing)
    with b show ?thesis by simp
  next
    case False
    with first show ?thesis by simp
  qed
  from open_tx first quiet
  have d: "deploy keep_history timestamp fails s w = copy_to_production fails s w1"
    by (simp add: deploy_def and_then_def)
  from open_tx have blocked: "copy_to_production fails s w1 =
     (Blocked, w1\<lparr>production_file := Some (stored (production_file w1)),
                 io_log := io_log w1 @ [ConnectProduction, CopyToProduction]\<rparr>)"
    by (simp add: copy_to_production_blocked)
  from d blocked show "fst (deploy keep_history timestamp fails s w) = Blocked"
    by simp
  from d blocked kept
  show "stored (production_file (snd (deploy keep_history timestamp fails s w)))
            = stored (production_file w)"
    by simp
qed

theorem deploy_backup_then_copy_witness:
  "\<not> load_production studio_session \<and> \<not> in_transaction studio_session
   \<and> (\<forall>st. no_faults st = None)
   \<and> compute_history_database_path frozen_time
        \<notin> fst ` set (folder_files (history_folder example_world))
   \<and> deploy True frozen_time no_faults studio_session example_world =
       (Returned, \<lparr>production_file = Some (db studio_session),
               history_folder = Some [(''20_01_01_00_00_00_000000.db'', empty_store)],
               io_log = [Makedirs, ConnectProduction,
                         ConnectBackup ''20_01_01_00_00_00_000000.db'',
                         BackupProduction ''20_01_01_00_00_00_000000.db'',
                         ConnectProduction, CopyToProduction]\<rparr>)
   \<and> compute_history_database_path frozen_time
        \<in> fst ` set (folder_files (history_folder deployed_once_world))
   \<and> fst (deploy True frozen_time no_faults studio_session deployed_once_world) = Returned
   \<and> backup_production frozen_time failing_backup example_world =
       (Raises (OperationalError ''database or disk is full''),
        snd (backup_production frozen_time failing_backup example_world))
   \<and> deploy True frozen_time failing_backup studio_session example_world =
       (Raises (OperationalError ''database or disk is full''),
        snd (backup_production frozen_time failing_backup example_world))
   \<and> stored (production_file (snd (backup_production frozen_time failing_backup example_world)))
       = empty_store
   \<and> deploy False frozen_time no_faults studio_session example_world =
       (Returned, \<lparr>production_file = Some (db studio_session), history_folder = None,
               io_log = [ConnectProduction, CopyToProduction]\<rparr>)
   \<and> \<not> load_production unsaved_session \<and> in_transaction unsaved_session
   \<and> fst (deploy True frozen_time no_faults unsaved_session example_world) = Blocked
   \<and> stored (production_file
        (snd (deploy True frozen_time no_faults unsaved_session example_world))) = empty_store"
proof -
  have staging: "\<not> load_production studio_session"
    by code_simp
  have saved: "\<not> in_transaction studio_session"
    by code_simp
  have quiet: "\<forall>st. no_faults st = None"
    by (simp add: no_faults_def)
  have fresh: "compute_history_database_path frozen_time
        \<notin> fst ` set (folder_files (history_folder example_world))"
    by (simp add: example_world_def)
  have old: "compute_history_database_path frozen_time
        \<in> fst ` set (folder_files (history_folder deployed_once_world))"
    by code_simp
  have failed: "backup_production frozen_time failing_backup example_world =
       (Raises (OperationalError ''database or disk is full''),
        snd (backup_production frozen_time failing_backup example_world))"
    by code_simp
  have staging2: "\<not> load_production unsaved_session"
    by code_simp
  have unsaved: "in_transaction unsaved_session"
    by code_simp
  have path: "compute_history_database_path frozen_time = ''20_01_01_00_00_00_000000.db''"
    by (simp add: compute_history_database_path_def frozen_time_def)
  have w0: "production_file example_world = None" "history_folder example_world = None"
    "io_log example_world = []"
    by (simp_all add: example_world_def)
  from deploy_backup_then_copy [of studio_session no_faults frozen_time example_world]
       deploy_backup_then_copy [of studio_session no_faults frozen_time deployed_once_world]
       deploy_backup_then_copy [of studio_session failing_backup frozen_time example_world
          "OperationalError ''database or disk is full''"
          "snd (backup_production frozen_time failing_backup example_world)"]
       deploy_backup_then_copy [of unsaved_session no_faults frozen_time example_world _ _ True]
       staging saved quiet fresh old failed staging2 unsaved
  show ?thesis
    by (simp add: path w0 example_world_def)
qed

subsection \<open>Row ids, context lookups and the effect of adding and removing\<close>


lemma condition_eq [simp]: "condition v col = (col = v)"
  by (cases v; cases col) auto

lemma fold_max_ge_start: "a \<le> fold max ids (a::nat)"
proof (induction ids arbitrary: a)
  case Nil
  then show ?case by simp
next
  case (Cons i ids)
  have "max i a \<le> fold max ids (max i a)" by (rule Cons.IH)
  then have "a \<le> fold max ids (max i a)" by (rule order_trans[OF max.cobounded2])
  then show ?case by simp
qed

lemma fold_max_ge_elem: "x \<in> set ids \<Longrightarrow> x \<le> fold max ids (a::nat)"
proof (induction ids arbitrary: a)
  case Nil
  then show ?case by simp
next
  case (Cons i ids)
  show ?case
  proof (cases "x = i")
    case True
    have "max i a \<le> fold max ids (max i a)" by (rule fold_max_ge_start)
    with True show ?thesis by simp
  next
    case False
    with Cons show ?thesis by simp
  qed
qed

lemma next_id_fresh: "next_id ids \<notin> set ids"
  using fold_max_ge_elem[of "next_id ids" ids 0] by (auto simp: next_id_def)

lemma next_id_pos: "next_id ids \<noteq> 0"
  by (simp add: next_id_def)

lemma select_context_ids_subset:
  "set (select_context_ids d pc) \<subseteq> set (map context_id (context_tbl d))"
  by (cases pc) (auto simp: select_context_ids_def)

lemma first_or_None_mem: "first_or_None xs = Some x \<Longrightarrow> x \<in> set xs"
  by (cases xs) auto

lemma first_or_None_empty: "first_or_None xs = None \<longleftrightarrow> xs = []"
  by (cases xs) auto

lemma get_context_row_id_mem:
  "get_context_row_id d contexts = Inr (Some cid) \<Longrightarrow> cid \<in> set (map context_id (context_tbl d))"
proof -
  assume "get_context_row_id d contexts = Inr (Some cid)"
  then obtain pc where "first_or_None (select_context_ids d pc) = Some cid"
    by (auto simp: get_context_row_id_def split: sum.splits)
  then have "cid \<in> set (select_context_ids d pc)" by (rule first_or_None_mem)
  with select_context_ids_subset show ?thesis by blast
qed

lemma wf_found_truthy:
  "wf_store d \<Longrightarrow> get_context_row_id d contexts = Inr found \<Longrightarrow>
     truthy_id found \<longleftrightarrow> found \<noteq> None"
  using get_context_row_id_mem[of d contexts]
  by (cases found) (auto simp: wf_store_def)

lemma wf_insert_context:
  "wf_store d \<Longrightarrow> insert_context d contexts = Inr (cid, d1) \<Longrightarrow>
     wf_store d1 \<and> cid \<in> set (map context_id (context_tbl d1))
     \<and> package_tbl d1 = package_tbl d"
  using next_id_fresh[of "map context_id (context_tbl d)"]
        next_id_pos[of "map context_id (context_tbl d)"]
  by (auto simp: insert_context_def wf_store_def Let_def image_subset_iff
           split: sum.splits prod.splits)

lemma wf_add_package_row:
  assumes "wf_store (db s)" and "add_package_row s contexts package_name stp sw = (r, s1)"
  shows "wf_store (db s1)"
proof (cases r)
  case (Inl err)
  with assms add_package_row_fails show ?thesis by blast
next
  case (Inr rid)
  from assms(2) Inr obtain found cid d1 where
    found: "get_context_row_id (db s) contexts = Inr found"
    and ens: "(if \<not> truthy_id found then insert_context (db s) contexts
                 else Inr (the found, db s)) = Inr (cid, d1)"
    and s1: "db s1 = d1\<lparr>package_tbl := package_tbl d1 @
                [\<lparr>rowid = next_id (map rowid (package_tbl d1)), pkg_context_id = cid,
                  name = package_name, step = stp, software = sw\<rparr>]\<rparr>"
    by (auto simp: add_package_row_def Let_def split: sum.splits prod.splits)
  have d1: "wf_store d1 \<and> cid \<in> set (map context_id (context_tbl d1))"
  proof (cases "truthy_id found")
    case True
    with ens found assms(1) show ?thesis
      by (cases found) (auto dest: get_context_row_id_mem)
  next
    case False
    with ens assms(1) wf_insert_context show ?thesis by auto
  qed
  with s1 next_id_fresh[of "map rowid (package_tbl d1)"]
       next_id_pos[of "map rowid (package_tbl d1)"]
  show ?thesis
    by (auto simp: wf_store_def image_subset_iff)
qed

lemma wf_add_package:
  "wf_store (db s) \<Longrightarrow> add_package rez s contexts package_name stp sw validate = (r, s1) \<Longrightarrow>
     wf_store (db s1)"
  by (auto simp: add_package_def dest: wf_add_package_row split: sum.splits prod.splits if_splits)

lemma wf_delete_package_row:
  "wf_store (db s) \<Longrightarrow> delete_package_row s contexts package_name stp sw rid = (r, s1) \<Longrightarrow>
     wf_store (db s1)"
  by (auto simp: delete_package_row_def wf_store_def Let_def distinct_map_filter
        image_subset_iff)

lemma wf_remove_package:
  "wf_store (db s) \<Longrightarrow> remove_package rez s contexts package_name stp sw validate = (r, s1) \<Longrightarrow>
     wf_store (db s1)"
  by (auto simp: remove_package_def Let_def dest: wf_delete_package_row
           split: sum.splits prod.splits if_splits)

lemma db_save [simp]:
  "context_tbl (db (save env store_history comment s)) = context_tbl (db s)"
  "package_tbl (db (save env store_history comment s)) = package_tbl (db s)"
  by (simp_all add: save_def Let_def)

lemma wf_save: "wf_store (db (save env store_history comment s)) = wf_store (db s)"
  by (simp add: wf_store_def)

lemma wf_initialize: "wf_store (db s) \<Longrightarrow> wf_store (db (initialize env s))"
  using next_id_fresh[of "map context_id (context_tbl (db s))"]
        next_id_pos[of "map context_id (context_tbl (db s))"]
  by (auto simp: initialize_def Let_def wf_store_def image_subset_iff)

lemma wf_empty: "wf_store empty_store"
  by (simp add: wf_store_def empty_store_def)

lemma select_context_ids_empty:
  "select_context_ids d pc = [] \<longleftrightarrow> pc \<notin> set (map triple_of (context_tbl d))"
  by (cases pc) (auto simp: select_context_ids_def triple_of_def filter_empty_conv)

lemma insert_context_row:
  "insert_context d contexts = Inr (cid, d1) \<Longrightarrow>
     \<exists>row pc. sanitize_context contexts = Inr pc \<and> triple_of row = pc
        \<and> context_id row = cid \<and> context_tbl d1 = context_tbl d @ [row]"
  by (auto simp: insert_context_def Let_def triple_of_def split: sum.splits prod.splits)

lemma insert_context_unique:
  assumes "unique_triples d" and "get_context_row_id d contexts = Inr None"
    and "insert_context d contexts = Inr (cid, d1)"
  shows "unique_triples d1"
proof -
  from insert_context_row[OF assms(3)] obtain row pc where
    pc: "sanitize_context contexts = Inr pc" and row: "triple_of row = pc"
    and tbl: "context_tbl d1 = context_tbl d @ [row]" by blast
  from assms(2) pc have "select_context_ids d pc = []"
    by (simp add: get_context_row_id_def first_or_None_empty)
  then have "pc \<notin> set (map triple_of (context_tbl d))"
    by (simp add: select_context_ids_empty)
  with assms(1) row tbl show ?thesis
    by (simp add: unique_triples_def)
qed

lemma add_package_row_contexts:
  assumes "wf_store (db s)" and "add_package_row s contexts package_name stp sw = (r, s1)"
  shows "context_tbl (db s1) = context_tbl (db s)
     \<or> (\<exists>row. context_tbl (db s1) = context_tbl (db s) @ [row]
           \<and> triple_of row \<notin> set (map triple_of (context_tbl (db s))))"
proof (cases r)
  case (Inl err)
  with assms add_package_row_fails show ?thesis by blast
next
  case (Inr rid)
  from assms(2) Inr obtain found cid d1 where
    found: "get_context_row_id (db s) contexts = Inr found"
    and ens: "(if \<not> truthy_id found then insert_context (db s) contexts
                 else Inr (the found, db s)) = Inr (cid, d1)"
    and s1: "context_tbl (db s1) = context_tbl d1"
    by (auto simp: add_package_row_def Let_def split: sum.splits prod.splits)
  show ?thesis
  proof (cases "truthy_id found")
    case True
    with ens s1 show ?thesis by auto
  next
    case False
    with wf_found_truthy[OF assms(1) found] have none: "found = None" by simp
    from False ens have ins: "insert_context (db s) contexts = Inr (cid, d1)" by simp
    from insert_context_row[OF ins] obtain row pc where
      pc: "sanitize_context contexts = Inr pc" and row: "triple_of row = pc"
      and tbl: "context_tbl d1 = context_tbl (db s) @ [row]" by blast
    from found none pc have "select_context_ids (db s) pc = []"
      by (simp add: get_context_row_id_def first_or_None_empty)
    then have "pc \<notin> set (map triple_of (context_tbl (db s)))"
      by (simp add: select_context_ids_empty)
    with row tbl s1 show ?thesis by auto
  qed
qed

lemma add_package_contexts:
  assumes "wf_store (db s)" and "add_package rez s contexts package_name stp sw validate = (r, s1)"
  shows "context_tbl (db s1) = context_tbl (db s)
     \<or> (\<exists>row. context_tbl (db s1) = context_tbl (db s) @ [row]
           \<and> triple_of row \<notin> set (map triple_of (context_tbl (db s))))"
proof (cases "s1 = s")
  case True
  then show ?thesis by simp
next
  case False
  with assms(2) have "add_package_row s contexts package_name stp sw = (r, s1)"
    by (auto simp: add_package_def split: if_splits sum.splits prod.splits)
  with assms(1) show ?thesis by (rule add_package_row_contexts)
qed

lemma remove_package_contexts:
  "remove_package rez s contexts package_name stp sw validate = (r, s1) \<Longrightarrow>
     context_tbl (db s1) = context_tbl (db s)"
  by (auto simp: remove_package_def delete_package_row_def Let_def
           split: sum.splits prod.splits if_splits)

lemma studio_once_add:
  assumes "wf_store (db s)" and "studio_once (db s)"
    and "add_package rez s contexts package_name stp sw validate = (r, s1)"
  shows "studio_once (db s1)"
  using add_package_contexts[OF assms(1,3)] assms(2)
  by (auto simp: studio_once_def unique_triples_def)

lemma studio_once_remove:
  "studio_once (db s) \<Longrightarrow>
     remove_package rez s contexts package_name stp sw validate = (r, s1) \<Longrightarrow>
     studio_once (db s1)"
  by (auto simp: studio_once_def unique_triples_def dest: remove_package_contexts)

lemma studio_once_save:
  "studio_once (db (save env store_history comment s)) = studio_once (db s)"
  by (simp add: studio_once_def unique_triples_def)

lemma initialize_empty:
  "context_tbl (db (initialize env (open_session production empty_store)))
     = [\<lparr>context_id = 1, project = None, category = None, entity = None\<rparr>]"
  by (simp add: initialize_def open_session_def empty_store_def next_id_def Let_def)

lemma distinct_filter_one:
  "distinct (map f xs) \<Longrightarrow> v \<in> set (map f xs) \<Longrightarrow> length (filter (\<lambda>r. f r = v) xs) = 1"
proof (induction xs)
  case Nil
  then show ?case by simp
next
  case (Cons x xs)
  show ?case
  proof (cases "f x = v")
    case True
    with Cons.prems have "\<forall>r\<in>set xs. f r \<noteq> v"
      by (auto simp: image_iff)
    then have "filter (\<lambda>r. f r = v) xs = []"
      by (simp add: filter_empty_conv)
    with True show ?thesis by simp
  next
    case False
    with Cons show ?thesis by auto
  qed
qed

lemma select_rowids_matching:
  "select_rowids d package_name cid stp sw = map rowid (matching_rows d cid package_name stp sw)"
  by (auto simp: select_rowids_def matching_rows_def intro!: arg_cong[where f = "map rowid"] filter_cong)

lemma remove_unknown_context:
  "get_context_row_id (db s) contexts = Inr None \<Longrightarrow>
     remove_package rez s contexts package_name stp sw validate
       = (Inl (unknown_context contexts), s)"
  by (simp add: remove_package_def unknown_context_def)

lemma remove_unknown_package:
  "wf_store (db s) \<Longrightarrow> get_context_row_id (db s) contexts = Inr (Some cid) \<Longrightarrow>
     matching_rows (db s) cid package_name stp sw = [] \<Longrightarrow>
     remove_package rez s contexts package_name stp sw validate
       = (Inl (unknown_package package_name), s)"
  using wf_found_truthy[of "db s" contexts "Some cid"]
  by (simp add: remove_package_def unknown_package_def select_rowids_matching Let_def)

lemma matching_rows_subset:
  "set (matching_rows d cid package_name stp sw) \<subseteq> set (package_tbl d)"
  by (auto simp: matching_rows_def)

lemma remove_first_match:
  assumes wf: "wf_store (db s)"
    and ctx: "get_context_row_id (db s) contexts = Inr (Some cid)"
    and rows: "matching_rows (db s) cid package_name stp sw = row # rest"
  shows "remove_package rez s contexts package_name stp sw False
     = delete_package_row s contexts package_name stp sw (rowid row)"
proof -
  from rows matching_rows_subset[of "db s" cid package_name stp sw]
  have "row \<in> set (package_tbl (db s))" by auto
  with wf have "rowid row \<noteq> 0" by (auto simp: wf_store_def)
  with wf_found_truthy[OF wf ctx] ctx rows show ?thesis
    by (simp add: remove_package_def select_rowids_matching Let_def)
qed

lemma matching_rows_after_delete:
  assumes wf: "wf_store (db s)"
    and rows: "matching_rows (db s) cid package_name stp sw = row # rest"
    and del: "delete_package_row s contexts' package_name' stp' sw' (rowid row) = (r, s1)"
  shows "matching_rows (db s1) cid package_name stp sw = rest"
proof -
  from wf have "distinct (map rowid (package_tbl (db s)))" by (simp add: wf_store_def)
  then have "distinct (map rowid (matching_rows (db s) cid package_name stp sw))"
    by (simp add: matching_rows_def distinct_map_filter)
  with rows have fresh: "\<forall>x\<in>set rest. rowid x \<noteq> rowid row" by (auto simp: image_iff)
  from del have "matching_rows (db s1) cid package_name stp sw
      = filter (\<lambda>x. rowid x \<noteq> rowid row) (matching_rows (db s) cid package_name stp sw)"
    by (auto simp: delete_package_row_def Let_def matching_rows_def conj_commute)
  with rows fresh show ?thesis by (simp add: filter_id_conv)
qed

lemma get_context_row_id_append:
  assumes "get_context_row_id d contexts = Inr (Some cid)"
    and "context_tbl d1 = context_tbl d @ extra"
  shows "get_context_row_id d1 contexts = Inr (Some cid)"
  using assms
  by (auto simp: get_context_row_id_def select_context_ids_def first_or_None_empty
           split: sum.splits prod.splits list.splits elim!: first_or_None.elims)

lemma get_context_row_id_cong:
  "context_tbl d1 = context_tbl d \<Longrightarrow> get_context_row_id d1 contexts = get_context_row_id d contexts"
  by (cases "sanitize_context contexts")
     (auto simp: get_context_row_id_def select_context_ids_def split: prod.splits)

lemma add_package_row_effect:
  assumes wf: "wf_store (db s)"
    and add: "add_package_row s contexts package_name stp sw = (Inr rid, s1)"
  shows "\<exists>cid extra.
           get_context_row_id (db s1) contexts = Inr (Some cid)
         \<and> context_tbl (db s1) = context_tbl (db s) @ extra
         \<and> package_tbl (db s1) = package_tbl (db s) @
              [\<lparr>rowid = rid, pkg_context_id = cid, name = package_name,
                step = stp, software = sw\<rparr>]
         \<and> (get_context_row_id (db s) contexts = Inr (Some cid)
              \<or> cid \<notin> set (map context_id (context_tbl (db s))))"
proof -
  from add obtain found cid d1 where
    found: "get_context_row_id (db s) contexts = Inr found"
    and ens: "(if \<not> truthy_id found then insert_context (db s) contexts
                 else Inr (the found, db s)) = Inr (cid, d1)"
    and ctx1: "context_tbl (db s1) = context_tbl d1"
    and pkg1: "package_tbl (db s1) = package_tbl d1 @
                [\<lparr>rowid = rid, pkg_context_id = cid, name = package_name,
                  step = stp, software = sw\<rparr>]"
    by (auto simp: add_package_row_def Let_def split: sum.splits prod.splits)
  show ?thesis
  proof (cases "truthy_id found")
    case True
    then obtain a where a: "found = Some a" by (cases found) auto
    from True ens have "Inr (the found, db s) = (Inr (cid, d1) :: error + nat \<times> store)"
      by simp
    with a have d1: "d1 = db s" and cid: "found = Some cid" by simp_all
    from ctx1 d1 have "context_tbl (db s1) = context_tbl (db s)" by simp
    then have "get_context_row_id (db s1) contexts = get_context_row_id (db s) contexts"
      by (rule get_context_row_id_cong)
    with found cid ctx1 pkg1 d1 show ?thesis by simp
  next
    case False
    with wf_found_truthy[OF wf found] have none: "found = None" by simp
    from False ens have ins: "insert_context (db s) contexts = Inr (cid, d1)" by simp
    from insert_context_row[OF ins] obtain row pc where
      pc: "sanitize_context contexts = Inr pc" and row: "triple_of row = pc"
      and rid: "context_id row = cid"
      and tbl: "context_tbl d1 = context_tbl (db s) @ [row]" by blast
    from found none pc have empty: "select_context_ids (db s) pc = []"
      by (simp add: get_context_row_id_def first_or_None_empty)
    from wf_insert_context[OF wf ins] have pk: "package_tbl d1 = package_tbl (db s)" by simp
    from ins have fresh: "cid \<notin> set (map context_id (context_tbl (db s)))"
      using next_id_fresh[of "map context_id (context_tbl (db s))"]
      by (auto simp: insert_context_def Let_def split: sum.splits prod.splits)
    from empty have "filter (\<lambda>r. triple_of r = pc) (context_tbl (db s)) = []"
      by (cases pc) (simp add: select_context_ids_def triple_of_def)
    with tbl row rid ctx1 have "select_context_ids (db s1) pc = [cid]"
      by (cases pc) (simp add: select_context_ids_def triple_of_def)
    with pc have look: "get_context_row_id (db s1) contexts = Inr (Some cid)"
      by (simp add: get_context_row_id_def)
    from tbl ctx1 have "context_tbl (db s1) = context_tbl (db s) @ [row]" by simp
    with look pkg1 pk fresh show ?thesis by simp

  qed
qed

lemma add_package_unvalidated:
  "add_package rez s contexts package_name stp sw False
     = add_package_row s contexts package_name stp sw"
  by (simp add: add_package_def)

lemma first_select_rowids:
  "first_or_None (select_rowids d package_name cid stp sw) = Some x \<Longrightarrow>
     \<exists>m\<in>set (package_tbl d). rowid m = x \<and> name m = package_name \<and> step m = stp
        \<and> software m = sw \<and> pkg_context_id m = cid"
  by (auto simp: select_rowids_def dest!: first_or_None_mem)

lemma remove_package_result:
  assumes "remove_package rez s contexts package_name stp sw validate = (r, s1)"
  shows "s1 = s \<or> (\<exists>m\<in>set (package_tbl (db s)). name m = package_name \<and> step m = stp
        \<and> software m = sw
        \<and> package_tbl (db s1) = filter (\<lambda>x. rowid x \<noteq> rowid m) (package_tbl (db s)))"
proof (cases "s1 = s")
  case True
  then show ?thesis by simp
next
  case False
  define found where "found = projr (get_context_row_id (db s) contexts)"
  define pid where "pid = first_or_None (select_rowids (db s) package_name (the found) stp sw)"
  from False assms have del: "delete_package_row s contexts package_name stp sw (the pid) = (r, s1)"
    and tr: "truthy_id pid"
    unfolding found_def pid_def
    by (auto simp: remove_package_def Let_def split: sum.splits prod.splits if_splits)
  from tr obtain x where x: "pid = Some x" by (cases pid) auto
  with pid_def have "first_or_None (select_rowids (db s) package_name (the found) stp sw) = Some x"
    by simp
  from del x have del: "delete_package_row s contexts package_name stp sw x = (r, s1)" by simp
  from first_select_rowids[OF \<open>first_or_None (select_rowids (db s) package_name (the found) stp sw) = Some x\<close>] obtain m where
    "m \<in> set (package_tbl (db s))" "rowid m = x" "name m = package_name" "step m = stp"
    "software m = sw" by blast
  with del show ?thesis
    by (auto simp: delete_package_row_def Let_def)
qed

lemma apply_call_invariant:
  assumes "wf_store (db s)" and "studio_once (db s)" and "apply_call rez s c = (r, s1)"
  shows "wf_store (db s1) \<and> studio_once (db s1)"
proof (cases c)
  case (AddPackage contexts package_name stp sw validate)
  with assms(3) obtain res where
    "add_package rez s contexts package_name stp sw validate = (res, s1)"
    by (auto split: prod.splits sum.splits)
  with assms(1,2) show ?thesis
    by (blast intro: wf_add_package studio_once_add)
next
  case (RemovePackage contexts package_name stp sw validate)
  with assms(3) obtain res where
    "remove_package rez s contexts package_name stp sw validate = (res, s1)"
    by (auto split: prod.splits sum.splits)
  with assms(1,2) show ?thesis
    by (blast intro: wf_remove_package studio_once_remove)
qed

lemma run_calls_invariant:
  "wf_store (db s) \<Longrightarrow> studio_once (db s) \<Longrightarrow> run_calls rez s calls = Inr s1 \<Longrightarrow>
     wf_store (db s1) \<and> studio_once (db s1)"
proof (induction calls arbitrary: s)
  case Nil
  then show ?case by simp
next
  case (Cons c cs)
  from Cons.prems(3) obtain s2 where c: "apply_call rez s c = (None, s2)"
    and r: "run_calls rez s2 cs = Inr s1"
    by (auto split: prod.splits option.splits)
  from apply_call_invariant[OF Cons.prems(1,2) c] Cons.IH[OF _ _ r] show ?case by blast
qed

lemma initialized_invariant:
  "wf_store (db (initialize env (open_session production empty_store)))
   \<and> studio_once (db (initialize env (open_session production empty_store)))"
proof
  have "wf_store (db (open_session production empty_store))"
    by (simp add: open_session_def wf_empty)
  then show "wf_store (db (initialize env (open_session production empty_store)))"
    by (rule wf_initialize)
  show "studio_once (db (initialize env (open_session production empty_store)))"
    by (simp add: studio_once_def unique_triples_def initialize_empty triple_of_def)
qed

lemma studio_once_rows: "studio_once d \<Longrightarrow> length (studio_rows d) = 1"
  unfolding studio_rows_def studio_once_def unique_triples_def
  by (intro distinct_filter_one) simp_all

subsection \<open>Uniqueness of context triples\<close>

text \<open>
  Claim C9, as stated, fails: neither \<open>initialize\<close> nor \<open>insert_context\<close> looks for an
  existing row, and the table has no uniqueness constraint. A second \<open>initialize\<close>, or
  \<open>insert_context()\<close> on an initialised store (as the repository's tests do), leaves two
  all-NULL rows.
\<close>


theorem duplicate_studio_rows_counter:
  "context_tbl (db (initialize env0 studio_session)) =
     [\<lparr>context_id = 1, project = None, category = None, entity = None\<rparr>,
      \<lparr>context_id = 2, project = None, category = None, entity = None\<rparr>]
   \<and> context_tbl (snd (projr (insert_context (db studio_session) []))) =
     [\<lparr>context_id = 1, project = None, category = None, entity = None\<rparr>,
      \<lparr>context_id = 2, project = None, category = None, entity = None\<rparr>]
   \<and> \<not> unique_triples (db (initialize env0 studio_session))"
  by code_simp

text \<open>
  Claim C9, amended. After \<open>initialize\<close> on an empty store exactly one context row
  exists, the all-NULL studio root with id 1. In every state reached from there by
  \<open>add_package\<close> and \<open>remove_package\<close> calls no two context rows share a triple and
  exactly one studio root exists: \<open>add_package\<close> inserts a context only when the lookup
  finds none, \<open>remove_package\<close> and \<open>save\<close> leave the context table alone, and
  \<open>insert_context\<close> keeps the triples unique when it is called after a lookup that found
  nothing. (\<open>insert_context\<close> by itself and a repeated \<open>initialize\<close> insert without
  looking.)
\<close>


theorem checked_inserts_keep_triples_unique:
  "context_tbl (db (initialize env (open_session production empty_store)))
      = [\<lparr>context_id = 1, project = None, category = None, entity = None\<rparr>]
   \<and> (run_calls rez (initialize env (open_session production empty_store)) calls = Inr s
        \<longrightarrow> unique_triples (db s) \<and> length (studio_rows (db s)) = 1)
   \<and> (wf_store (db t) \<and> unique_triples (db t)
        \<and> add_package rez t contexts package_name stp sw validate = (res_add, t_added)
        \<longrightarrow> unique_triples (db t_added))
   \<and> (unique_triples (db t)
        \<and> remove_package rez t contexts package_name stp sw validate = (res_remove, t_removed)
        \<longrightarrow> unique_triples (db t_removed))
   \<and> (unique_triples (db (save env store_history comment t)) = unique_triples (db t))
   \<and> (unique_triples d \<and> get_context_row_id d contexts = Inr None
        \<and> insert_context d contexts = Inr (cid, d_new) \<longrightarrow> unique_triples d_new)"
proof (intro conjI impI)
  show "context_tbl (db (initialize env (open_session production empty_store)))
      = [\<lparr>context_id = 1, project = None, category = None, entity = None\<rparr>]"
    by (rule initialize_empty)
next
  assume run: "run_calls rez (initialize env (open_session production empty_store)) calls = Inr s"
  from initialized_invariant[of env production] run_calls_invariant[OF _ _ run]
  have "wf_store (db s) \<and> studio_once (db s)"
    by blast
  then show "unique_triples (db s)" and "length (studio_rows (db s)) = 1"
    by (simp_all add: studio_once_rows) (simp add: studio_once_def)
next
  assume a: "wf_store (db t) \<and> unique_triples (db t)
        \<and> add_package rez t contexts package_name stp sw validate = (res_add, t_added)"
  then have "add_package rez t contexts package_name stp sw validate = (res_add, t_added)" by simp
  from add_package_contexts[OF _ this] a show "unique_triples (db t_added)"
    by (auto simp: unique_triples_def)
next
  assume "unique_triples (db t)
        \<and> remove_package rez t contexts package_name stp sw validate = (res_remove, t_removed)"
  then show "unique_triples (db t_removed)"
    by (auto simp: unique_triples_def dest: remove_package_contexts)
next
  show "unique_triples (db (save env store_history comment t)) = unique_triples (db t)"
    by (simp add: unique_triples_def)
next
  assume "unique_triples d \<and> get_context_row_id d contexts = Inr None
        \<and> insert_context d contexts = Inr (cid, d_new)"
  then show "unique_triples d_new" by (blast intro: insert_context_unique)
qed

theorem checked_inserts_keep_triples_unique_witness:
  "run_calls accepting_resolver (initialize env0 (open_session False empty_store)) project_calls
      = Inr (projr (run_calls accepting_resolver
                      (initialize env0 (open_session False empty_store)) project_calls))
   \<and> unique_triples (db (projr (run_calls accepting_resolver
                      (initialize env0 (open_session False empty_store)) project_calls)))
   \<and> length (studio_rows (db (projr (run_calls accepting_resolver
                      (initialize env0 (open_session False empty_store)) project_calls)))) = 1
   \<and> wf_store (db studio_session) \<and> unique_triples (db studio_session)
   \<and> unique_triples (db (snd (add_package accepting_resolver studio_session
                                [Some ''project''] ''packageB'' None None False)))
   \<and> unique_triples (db (snd (remove_package accepting_resolver studio_session
                                [] ''packageB'' None None False)))
   \<and> get_context_row_id (db studio_session) [Some ''project''] = Inr None
   \<and> insert_context (db studio_session) [Some ''project'']
        = Inr (2, snd (projr (insert_context (db studio_session) [Some ''project''])))
   \<and> unique_triples (snd (projr (insert_context (db studio_session) [Some ''project''])))"
proof -
  let ?s = "projr (run_calls accepting_resolver
                      (initialize env0 (open_session False empty_store)) project_calls)"
  let ?a = "add_package accepting_resolver studio_session
                                [Some ''project''] ''packageB'' None None False"
  let ?r = "remove_package accepting_resolver studio_session [] ''packageB'' None None False"
  let ?d1 = "snd (projr (insert_context (db studio_session) [Some ''project'']))"
  have run: "run_calls accepting_resolver (initialize env0 (open_session False empty_store))
                project_calls = Inr ?s"
    by code_simp
  have wf: "wf_store (db studio_session)" and uniq: "unique_triples (db studio_session)"
    by code_simp+
  have none: "get_context_row_id (db studio_session) [Some ''project''] = Inr None"
    by code_simp
  have ins: "insert_context (db studio_session) [Some ''project''] = Inr (2, ?d1)"
    by code_simp
  have a: "?a = (fst ?a, snd ?a)" and r: "?r = (fst ?r, snd ?r)"
    by simp_all
  from checked_inserts_keep_triples_unique
         [where env = env0 and production = False and rez = accepting_resolver
            and calls = project_calls and s = ?s and t = studio_session
            and contexts = "[Some ''project'']" and package_name = "''packageB''"
            and stp = None and sw = None and validate = False
            and res_add = "fst ?a" and t_added = "snd ?a"
            and d = "db studio_session" and cid = 2 and d_new = ?d1]
       checked_inserts_keep_triples_unique
         [where env = env0 and production = False and rez = accepting_resolver
            and calls = project_calls and s = ?s and t = studio_session
            and contexts = "[]" and package_name = "''packageB''"
            and stp = None and sw = None and validate = False
            and res_remove = "fst ?r" and t_removed = "snd ?r"]
       run wf uniq none ins a r
  show ?thesis by blast
qed

subsection \<open>Duplicate package rows\<close>

text \<open>
  Claim C10. \<open>add_package\<close> without validation never looks for an identical row: a
  successful call leaves one more row equal on (context id, name, step, software) than
  before, so the store may hold k > 1 such rows. When k > 0 rows are equal to the tuple,
  \<open>remove_package\<close> with that tuple (validation disabled) succeeds and leaves exactly
  k - 1 of them: it deletes one row, never all duplicates.
\<close>


theorem remove_deletes_one_duplicate:
  "(wf_store (db s) \<and> add_package rez s contexts package_name stp sw False = (Inr rid, s1)
      \<longrightarrow> (\<exists>cid. get_context_row_id (db s1) contexts = Inr (Some cid)
             \<and> length (matching_rows (db s1) cid package_name stp sw)
                 = Suc (length (matching_rows (db s) cid package_name stp sw))))
   \<and> (wf_store (db s) \<and> get_context_row_id (db s) contexts = Inr (Some cid)
        \<and> length (matching_rows (db s) cid package_name stp sw) = k \<and> 0 < k
      \<longrightarrow> fst (remove_package rez s contexts package_name stp sw False) = Inr ()
          \<and> length (matching_rows
                      (db (snd (remove_package rez s contexts package_name stp sw False)))
                      cid package_name stp sw) = k - 1)"
proof (intro conjI impI)
  assume a: "wf_store (db s)
      \<and> add_package rez s contexts package_name stp sw False = (Inr rid, s1)"
  then have "add_package_row s contexts package_name stp sw = (Inr rid, s1)"
    by (simp add: add_package_unvalidated)
  from add_package_row_effect[OF _ this] a obtain cid' where
    "get_context_row_id (db s1) contexts = Inr (Some cid')"
    "package_tbl (db s1) = package_tbl (db s) @
              [\<lparr>rowid = rid, pkg_context_id = cid', name = package_name,
                step = stp, software = sw\<rparr>]"
    by blast
  then show "\<exists>cid. get_context_row_id (db s1) contexts = Inr (Some cid)
             \<and> length (matching_rows (db s1) cid package_name stp sw)
                 = Suc (length (matching_rows (db s) cid package_name stp sw))"
    by (auto simp: matching_rows_def)
next
  assume b: "wf_store (db s) \<and> get_context_row_id (db s) contexts = Inr (Some cid)
        \<and> length (matching_rows (db s) cid package_name stp sw) = k \<and> 0 < k"
  then obtain row rest where
    rows: "matching_rows (db s) cid package_name stp sw = row # rest"
    by (cases "matching_rows (db s) cid package_name stp sw") auto
  from b have wf: "wf_store (db s)"
    and ctx: "get_context_row_id (db s) contexts = Inr (Some cid)" by simp_all
  have rm: "remove_package rez s contexts package_name stp sw False
     = delete_package_row s contexts package_name stp sw (rowid row)"
    by (rule remove_first_match[OF wf ctx rows])
  then show "fst (remove_package rez s contexts package_name stp sw False) = Inr ()"
    by (simp add: delete_package_row_def Let_def)
  have "matching_rows (db (snd (remove_package rez s contexts package_name stp sw False)))
           cid package_name stp sw = rest"
    by (rule matching_rows_after_delete[OF wf rows,
          of contexts package_name stp sw "Inr ()"])
       (simp add: rm delete_package_row_def Let_def)
  with b rows
  show "length (matching_rows
                      (db (snd (remove_package rez s contexts package_name stp sw False)))
                      cid package_name stp sw) = k - 1"
    by auto
qed

theorem remove_deletes_one_duplicate_witness:
  "wf_store (db studio_session)
   \<and> add_package accepting_resolver studio_session [] ''packageA'' None None False
       = (Inr 1, snd (add_package accepting_resolver studio_session
                        [] ''packageA'' None None False))
   \<and> wf_store (db duplicate_session)
   \<and> get_context_row_id (db duplicate_session) [] = Inr (Some 1)
   \<and> length (matching_rows (db duplicate_session) 1 ''packageA'' None None) = 2
   \<and> fst (remove_package accepting_resolver duplicate_session [] ''packageA'' None None False)
       = Inr ()
   \<and> length (matching_rows
        (db (snd (remove_package accepting_resolver duplicate_session
                    [] ''packageA'' None None False))) 1 ''packageA'' None None) = 1"
proof -
  have wf0: "wf_store (db studio_session)"
    by code_simp
  have add: "add_package accepting_resolver studio_session [] ''packageA'' None None False
       = (Inr 1, snd (add_package accepting_resolver studio_session
                        [] ''packageA'' None None False))"
    by code_simp
  have wf: "wf_store (db duplicate_session)"
    by code_simp
  have ctx: "get_context_row_id (db duplicate_session) [] = Inr (Some 1)"
    by code_simp
  have two: "length (matching_rows (db duplicate_session) 1 ''packageA'' None None) = 2"
    by code_simp
  from remove_deletes_one_duplicate
         [of duplicate_session accepting_resolver "[]" "''packageA''" None None 1
             "snd (add_package accepting_resolver duplicate_session
                        [] ''packageA'' None None False)" 1 2]
       wf0 add wf ctx two
  show ?thesis by simp
qed

subsection \<open>Removal is exact\<close>

text \<open>
  Claim C5. \<open>remove_package\<close> fails with the \<^verbatim>\<open>ValueError\<close> "Context '...' doesn't
  exist." (the spec's \<^verbatim>\<open>UnknownContext\<close>) when no context row has the triple, and with
  the \<^verbatim>\<open>ValueError\<close> "Package '...' doesn't exists." (the spec's
  \<^verbatim>\<open>UnknownPackage\<close>) when no package row is equal to the tuple (context id, name,
  step, software), an absent step or software being equal to NULL only; in both cases the
  session is returned as it was: no context is created and nothing is deleted. Whatever
  the outcome of a call, a row that differs from the call's name, step or software is
  still in the table afterwards; so removing (studio, name, no step, no software) never
  removes a row of that name with a step.
\<close>


theorem remove_is_exact:
  "(get_context_row_id (db s) contexts = Inr None
      \<longrightarrow> remove_package rez s contexts package_name stp sw validate
            = (Inl (unknown_context contexts), s))
   \<and> (wf_store (db s) \<and> get_context_row_id (db s) contexts = Inr (Some cid)
        \<and> matching_rows (db s) cid package_name stp sw = []
      \<longrightarrow> remove_package rez s contexts package_name stp sw validate
            = (Inl (unknown_package package_name), s))
   \<and> (wf_store (db s)
        \<and> remove_package rez s contexts package_name stp sw validate = (res, s_after)
        \<and> row \<in> set (package_tbl (db s))
        \<and> (name row \<noteq> package_name \<or> step row \<noteq> stp \<or> software row \<noteq> sw)
      \<longrightarrow> row \<in> set (package_tbl (db s_after)) \<and> context_tbl (db s_after) = context_tbl (db s))"
proof (intro conjI impI)
  assume "get_context_row_id (db s) contexts = Inr None"
  then show "remove_package rez s contexts package_name stp sw validate
            = (Inl (unknown_context contexts), s)"
    by (rule remove_unknown_context)
next
  assume "wf_store (db s) \<and> get_context_row_id (db s) contexts = Inr (Some cid)
        \<and> matching_rows (db s) cid package_name stp sw = []"
  then show "remove_package rez s contexts package_name stp sw validate
            = (Inl (unknown_package package_name), s)"
    by (simp add: remove_unknown_package)
next
  assume c: "wf_store (db s)
        \<and> remove_package rez s contexts package_name stp sw validate = (res, s_after)
        \<and> row \<in> set (package_tbl (db s))
        \<and> (name row \<noteq> package_name \<or> step row \<noteq> stp \<or> software row \<noteq> sw)"
  then have rm: "remove_package rez s contexts package_name stp sw validate = (res, s_after)"
    by simp
  from c have "distinct (map rowid (package_tbl (db s)))" by (simp add: wf_store_def)
  then have inj: "inj_on rowid (set (package_tbl (db s)))" by (simp add: distinct_map)
  from remove_package_result[OF rm] c show "row \<in> set (package_tbl (db s_after))"
    by (auto dest: inj_onD[OF inj])
  from rm show "context_tbl (db s_after) = context_tbl (db s)"
    by (rule remove_package_contexts)
qed

theorem remove_is_exact_witness:
  "get_context_row_id (db studio_session) [Some ''unknownProject''] = Inr None
   \<and> remove_package accepting_resolver studio_session [Some ''unknownProject'']
         ''packageA'' None None False
       = (Inl (unknown_context [Some ''unknownProject'']), studio_session)
   \<and> wf_store (db studio_session)
   \<and> get_context_row_id (db studio_session) [] = Inr (Some 1)
   \<and> matching_rows (db studio_session) 1 ''invalidPackage'' None None = []
   \<and> remove_package accepting_resolver studio_session [] ''invalidPackage'' None None True
       = (Inl (unknown_package ''invalidPackage''), studio_session)
   \<and> wf_store (db stepped_session)
   \<and> \<lparr>rowid = 1, pkg_context_id = 1, name = ''packageB'', step = Some ''stepA'',
        software = None\<rparr> \<in> set (package_tbl (db stepped_session))
   \<and> fst (remove_package accepting_resolver stepped_session [] ''packageB'' None None False)
       = Inr ()
   \<and> \<lparr>rowid = 1, pkg_context_id = 1, name = ''packageB'', step = Some ''stepA'',
        software = None\<rparr>
       \<in> set (package_tbl (db (snd (remove_package accepting_resolver stepped_session
                                      [] ''packageB'' None None False))))"
proof -
  let ?row = "\<lparr>rowid = 1, pkg_context_id = 1, name = ''packageB'', step = Some ''stepA'',
        software = None\<rparr>"
  let ?rm = "remove_package accepting_resolver stepped_session [] ''packageB'' None None False"
  have none: "get_context_row_id (db studio_session) [Some ''unknownProject''] = Inr None"
    by code_simp
  have wf: "wf_store (db studio_session)"
    by code_simp
  have ctx: "get_context_row_id (db studio_session) [] = Inr (Some 1)"
    by code_simp
  have nomatch: "matching_rows (db studio_session) 1 ''invalidPackage'' None None = []"
    by code_simp
  have wf2: "wf_store (db stepped_session)"
    by code_simp
  have row: "?row \<in> set (package_tbl (db stepped_session))"
    by code_simp
  have differs: "step ?row \<noteq> None"
    by simp
  have removed: "fst ?rm = Inr ()"
    by code_simp
  have rm: "?rm = (fst ?rm, snd ?rm)"
    by simp
  from remove_is_exact
         [where s = studio_session and contexts = "[Some ''unknownProject'']"
            and rez = accepting_resolver and package_name = "''packageA''"
            and stp = None and sw = None and validate = False]
       remove_is_exact
         [where s = studio_session and contexts = "[]"
            and rez = accepting_resolver and package_name = "''invalidPackage''"
            and stp = None and sw = None and validate = True and cid = 1]
       remove_is_exact
         [where s = stepped_session and contexts = "[]"
            and rez = accepting_resolver and package_name = "''packageB''"
            and stp = None and sw = None and validate = False
            and res = "fst ?rm" and s_after = "snd ?rm" and row = ?row]
       none wf ctx nomatch wf2 row differs removed rm
  show ?thesis by blast
qed


subsection \<open>A rejected addition\<close>

lemma add_package_rejected:
  assumes "get_package_list rez (db s) contexts stp sw False = Inr all_packages"
    and "validate_context rez (all_packages @ [package_name]) = Inr (False, message)"
  shows "add_package rez s contexts package_name stp sw True = (Inl (raise_message message), s)"
  using assms by (simp add: add_package_def)

text \<open>
  Claim C4 fails on the code by a slip. When the resolver completes without raising and
  its status is not \<^verbatim>\<open>solved\<close>, \<open>validate_context\<close> returns \<open>(False, None)\<close>, and
  \<open>add_package\<close> executes \<^verbatim>\<open>raise message\<close> with \<^verbatim>\<open>message = None\<close>: the call fails
  and leaves the session as it was, but with a \<^verbatim>\<open>TypeError\<close> that carries nothing of the
  gateway. \<open>get_package_list\<close> handles the same result by wrapping the message in a
  \<^verbatim>\<open>ValueError\<close>.
\<close>

theorem add_package_rejected_without_diagnostic:
  "validate_context unsolved_resolver [''anotherTool''] = Inr (False, None)
   \<and> add_package unsolved_resolver studio_session [] ''anotherTool'' None None True
       = (Inl (TypeError ''exceptions must derive from BaseException''), studio_session)
   \<and> get_package_list unsolved_resolver (db studio_session) [] None None True
       = Inl (ValueError ''Package list can't be validated: None'')"
  by code_simp

subsection \<open>The listing merges the scopes in order\<close>

lemma dict_fromkeys_into_keep_first:
  "dict_fromkeys_into keys xs = keys @ keep_first (filter (\<lambda>x. x \<notin> set keys) xs)"
proof (induction xs arbitrary: keys)
  case Nil
  then show ?case by simp
next
  case (Cons x xs)
  show ?case
  proof (cases "x \<in> set keys")
    case True
    with Cons.IH[of keys] show ?thesis by simp
  next
    case False
    have "filter (\<lambda>y. y \<notin> set (keys @ [x])) xs
        = filter (\<lambda>y. y \<noteq> x) (filter (\<lambda>y. y \<notin> set keys) xs)"
      by (induction xs) auto
    with False Cons.IH[of "keys @ [x]"] show ?thesis by simp
  qed
qed

lemma dict_fromkeys_keep_first: "dict_fromkeys xs = keep_first xs"
  by (simp add: dict_fromkeys_def dict_fromkeys_into_keep_first)

lemma lookup_loop_concat:
  "lookup_loop d cid lookups packages
     = packages @ concat (map (\<lambda>(clause, attrs). select_names d cid clause attrs) lookups)"
  by (induction lookups arbitrary: packages) auto

lemma context_loop_concat:
  "context_loop d lookups cids packages
     = packages @ concat (map (\<lambda>cid. lookup_loop d cid lookups []) cids)"
proof (induction cids arbitrary: packages)
  case Nil
  then show ?case by simp
next
  case (Cons cid cids)
  have "lookup_loop d cid lookups packages = packages @ lookup_loop d cid lookups []"
    by (simp add: lookup_loop_concat)
  with Cons.IH[of "lookup_loop d cid lookups packages"] show ?case by simp
qed

lemma requested_truthy: "requested v = truthy_str v"
  by (cases v) (auto simp: requested_def)

lemma lookups_are_axis_groups:
  "map (\<lambda>(clause, attrs). select_names d cid clause attrs) (lookup_steps stp sw)
     = map (names_in d cid) (axis_groups stp sw)"
proof -
  have a: "select_names d cid StepNull_SoftwareNull [] = names_in d cid (None, None)"
    by (simp add: select_names_def names_in_def)
  have b: "\<And>x. select_names d cid StepEq_SoftwareNull [x] = names_in d cid (Some x, None)"
    by (simp add: select_names_def names_in_def)
  have c: "\<And>y. select_names d cid StepNull_SoftwareEq [y] = names_in d cid (None, Some y)"
    by (simp add: select_names_def names_in_def)
  have e: "\<And>x y. select_names d cid StepEq_SoftwareEq [x, y] = names_in d cid (Some x, Some y)"
    by (simp add: select_names_def names_in_def)
  show ?thesis
    by (cases stp; cases sw)
       (simp_all add: lookup_steps_def axis_groups_def requested_truthy a b c e)
qed

lemma first_or_None_find_id:
  "first_or_None (select_context_ids d t) = find_id d t"
  by (cases t; cases "filter (\<lambda>r. triple_of r = t) (context_tbl d)")
     (auto simp: select_context_ids_def find_id_def triple_of_def)

lemma chain_row_ids_find_id:
  "chain_row_ids d pc = map (find_id d) (ancestor_chain pc)"
  by (cases pc) (simp add: chain_row_ids_def ancestor_chain_def first_or_None_find_id)

lemma find_id_mem: "find_id d t = Some cid \<Longrightarrow> cid \<in> set (map context_id (context_tbl d))"
proof -
  assume "find_id d t = Some cid"
  then obtain r rs where "filter (\<lambda>r. triple_of r = t) (context_tbl d) = r # rs"
    and "context_id r = cid"
    by (auto simp: find_id_def split: list.splits)
  then have "r \<in> set (filter (\<lambda>r. triple_of r = t) (context_tbl d))"
    by simp
  then have "r \<in> set (context_tbl d)"
    by simp
  with \<open>context_id r = cid\<close> show ?thesis by auto
qed

lemma truthy_present_ids:
  assumes "0 \<notin> set (present_ids found)"
  shows "map the (filter truthy_id found) = present_ids found"
  using assms
proof (induction found)
  case Nil
  then show ?case by (simp add: present_ids_def)
next
  case (Cons v found)
  then show ?case by (cases v) (auto simp: present_ids_def)
qed

lemma present_ids_mem:
  "cid \<in> set (present_ids found) \<longleftrightarrow> Some cid \<in> set found"
  by (induction found) (auto simp: present_ids_def split: option.splits)

lemma collect_packages_spec:
  assumes "0 \<notin> set (map context_id (context_tbl d))"
  shows "dict_fromkeys (collect_packages d pc stp sw) = list_packages_spec d pc stp sw"
proof -
  have "0 \<notin> set (present_ids (map (find_id d) (ancestor_chain pc)))"
  proof
    assume "0 \<in> set (present_ids (map (find_id d) (ancestor_chain pc)))"
    then obtain t where "find_id d t = Some 0"
      by (auto simp: present_ids_mem)
    from find_id_mem[OF this] assms show False by simp
  qed
  then have "map the (filter truthy_id (map (find_id d) (ancestor_chain pc)))
      = present_ids (map (find_id d) (ancestor_chain pc))"
    by (rule truthy_present_ids)
  then have ids: "map the (filter truthy_id (chain_row_ids d pc))
      = present_ids (map (find_id d) (ancestor_chain pc))"
    by (simp only: chain_row_ids_find_id)
  show ?thesis
    by (simp add: collect_packages_def list_packages_spec_def ids dict_fromkeys_keep_first
          context_loop_concat lookup_loop_concat lookups_are_axis_groups Let_def)
qed

lemma set_keep_first [simp]: "set (keep_first xs) = set xs"
  by (induction xs rule: keep_first.induct) auto

lemma distinct_keep_first [simp]: "distinct (keep_first xs)"
  by (induction xs rule: keep_first.induct) auto

lemma get_package_list_unvalidated:
  "sanitize_context contexts = Inr pc \<Longrightarrow>
     get_package_list rez d contexts stp sw False
       = Inr (dict_fromkeys (collect_packages d pc stp sw))"
  by (simp add: get_package_list_def Let_def)

lemma get_package_list_result:
  "sanitize_context contexts = Inr pc \<Longrightarrow>
     get_package_list rez d contexts stp sw validate = Inr result \<Longrightarrow>
     result = dict_fromkeys (collect_packages d pc stp sw)"
  by (auto simp: get_package_list_def Let_def split: if_splits sum.splits prod.splits)

lemma axis_groups_mem:
  "g \<in> set (axis_groups stp sw) \<Longrightarrow>
     (fst g = None \<or> (requested stp \<and> fst g = stp))
     \<and> (snd g = None \<or> (requested sw \<and> snd g = sw))"
  by (auto simp: axis_groups_def split: if_splits)

lemma list_packages_spec_origin:
  assumes "n \<in> set (list_packages_spec d pc stp sw)"
  shows "\<exists>row\<in>set (package_tbl d). name row = n
           \<and> (step row = None \<or> (requested stp \<and> step row = stp))
           \<and> (software row = None \<or> (requested sw \<and> software row = sw))"
proof -
  from assms obtain cid g where g: "g \<in> set (axis_groups stp sw)"
    and n: "n \<in> set (names_in d cid g)"
    by (auto simp: list_packages_spec_def)
  from n obtain row where "row \<in> set (package_tbl d)" "name row = n"
    "step row = fst g" "software row = snd g"
    by (auto simp: names_in_def)
  with axis_groups_mem[OF g] show ?thesis by auto
qed

text \<open>
  Claim C1. For a context of at most three levels, normalised to the triple (p, c, e),
  and for context ids as SQLite assigns them (none is 0), \<open>get_package_list\<close> without
  validation returns: the ancestor chain (NULL,NULL,NULL), (p,NULL,NULL), (p,c,NULL),
  (p,c,e) looked up, absent ids dropped, ids deduplicated keeping the first occurrence;
  for each such id in that order the names of the axis groups (no step, no software),
  then (step only) if a step was requested, then (software only) if software was
  requested, then (step and software) if both were, concatenated; the whole deduplicated
  keeping the first occurrence. With validation, a returned list is the same list. Every
  name returned is the name of a row whose step is NULL or is the requested step, and
  whose software is NULL or is the requested software: a package inserted under a step
  is returned only when that step is requested.
\<close>

theorem get_package_list_merges_scopes:
  "(0 \<notin> set (map context_id (context_tbl d)) \<and> sanitize_context contexts = Inr (p, c, e)
      \<longrightarrow> get_package_list rez d contexts stp sw False
            = Inr (keep_first
                (concat (map (\<lambda>cid. concat (map (names_in d cid) (axis_groups stp sw)))
                  (keep_first (present_ids (map (find_id d)
                     [(None, None, None), (p, None, None), (p, c, None), (p, c, e)]))))))
          \<and> (\<forall>result. get_package_list rez d contexts stp sw validate = Inr result
                \<longrightarrow> result = list_packages_spec d (p, c, e) stp sw)
          \<and> (\<forall>n\<in>set (list_packages_spec d (p, c, e) stp sw).
                \<exists>row\<in>set (package_tbl d). name row = n
                   \<and> (step row = None \<or> (requested stp \<and> step row = stp))
                   \<and> (software row = None \<or> (requested sw \<and> software row = sw))))"
proof (intro impI conjI allI ballI)
  assume a: "0 \<notin> set (map context_id (context_tbl d)) \<and> sanitize_context contexts = Inr (p, c, e)"
  then have z: "0 \<notin> set (map context_id (context_tbl d))"
    and pc: "sanitize_context contexts = Inr (p, c, e)" by simp_all
  from get_package_list_unvalidated[OF pc] collect_packages_spec[OF z]
  show "get_package_list rez d contexts stp sw False
            = Inr (keep_first
                (concat (map (\<lambda>cid. concat (map (names_in d cid) (axis_groups stp sw)))
                  (keep_first (present_ids (map (find_id d)
                     [(None, None, None), (p, None, None), (p, c, None), (p, c, e)]))))))"
    by (simp add: list_packages_spec_def ancestor_chain_def)
  {
    fix result
    assume "get_package_list rez d contexts stp sw validate = Inr result"
    from get_package_list_result[OF pc this] collect_packages_spec[OF z]
    show "result = list_packages_spec d (p, c, e) stp sw" by simp
  }
  {
    fix n
    assume "n \<in> set (list_packages_spec d (p, c, e) stp sw)"
    then show "\<exists>row\<in>set (package_tbl d). name row = n
                   \<and> (step row = None \<or> (requested stp \<and> step row = stp))
                   \<and> (software row = None \<or> (requested sw \<and> software row = sw))"
      by (rule list_packages_spec_origin)
  }
qed

theorem get_package_list_merges_scopes_witness:
  "0 \<notin> set (map context_id (context_tbl (db override_session)))
   \<and> sanitize_context [Some ''project'', Some ''category'', Some ''entity'']
       = Inr (Some ''project'', Some ''category'', Some ''entity'')
   \<and> get_package_list accepting_resolver (db override_session)
         [Some ''project'', Some ''category'', Some ''entity''] None None False
       = Inr [''packageA'', ''packageB'', ''packageC'', ''packageD'']
   \<and> sanitize_context [] = Inr (None, None, None)
   \<and> get_package_list accepting_resolver (db override_session) [] (Some ''stepA'') None False
       = Inr [''packageA'', ''packageE'']
   \<and> get_package_list accepting_resolver (db override_session) [] None None False
       = Inr [''packageA'']"
proof -
  let ?d = "db override_session"
  have z: "0 \<notin> set (map context_id (context_tbl ?d))"
    by code_simp
  have pc3: "sanitize_context [Some ''project'', Some ''category'', Some ''entity'']
       = Inr (Some ''project'', Some ''category'', Some ''entity'')"
    by (simp add: sanitize_context_def)
  have pc0: "sanitize_context [] = Inr (None, None, None)"
    by (simp add: sanitize_context_def)
  have v1: "keep_first
      (concat (map (\<lambda>cid. concat (map (names_in ?d cid) (axis_groups None None)))
        (keep_first (present_ids (map (find_id ?d)
           [(None, None, None), (Some ''project'', None, None),
            (Some ''project'', Some ''category'', None),
            (Some ''project'', Some ''category'', Some ''entity'')])))))
      = [''packageA'', ''packageB'', ''packageC'', ''packageD'']"
    by code_simp
  have v2: "keep_first
      (concat (map (\<lambda>cid. concat (map (names_in ?d cid) (axis_groups (Some ''stepA'') None)))
        (keep_first (present_ids (map (find_id ?d)
           [(None, None, None), (None, None, None), (None, None, None),
            (None, None, None)])))))
      = [''packageA'', ''packageE'']"
    by code_simp
  have v3: "keep_first
      (concat (map (\<lambda>cid. concat (map (names_in ?d cid) (axis_groups None None)))
        (keep_first (present_ids (map (find_id ?d)
           [(None, None, None), (None, None, None), (None, None, None),
            (None, None, None)])))))
      = [''packageA'']"
    by code_simp
  from get_package_list_merges_scopes
         [where d = ?d and contexts = "[Some ''project'', Some ''category'', Some ''entity'']"
            and p = "Some ''project''" and c = "Some ''category''" and e = "Some ''entity''"
            and rez = accepting_resolver and stp = None and sw = None]
       get_package_list_merges_scopes
         [where d = ?d and contexts = "[]" and p = None and c = None and e = None
            and rez = accepting_resolver and stp = "Some ''stepA''" and sw = None]
       get_package_list_merges_scopes
         [where d = ?d and contexts = "[]" and p = None and c = None and e = None
            and rez = accepting_resolver and stp = None and sw = None]
       z pc3 pc0
  show ?thesis
    by (simp only: v1 v2 v3 simp_thms)
qed

subsection \<open>Round trip of additions and removals\<close>

lemma run_calls_append:
  "run_calls rez s (xs @ ys) = Inr s2 \<Longrightarrow>
     \<exists>s1. run_calls rez s xs = Inr s1 \<and> run_calls rez s1 ys = Inr s2"
  by (induction xs arbitrary: s) (auto split: prod.splits option.splits)

lemma add_content:
  assumes wf: "wf_store (db s)"
    and add: "add_package rez s contexts package_name stp sw False = (Inr rid, s1)"
  shows "\<exists>cid extra. get_context_row_id (db s1) contexts = Inr (Some cid)
          \<and> context_tbl (db s1) = context_tbl (db s) @ extra
          \<and> mset (map content (package_tbl (db s1)))
              = add_mset (cid, package_name, stp, sw) (mset (map content (package_tbl (db s))))"
proof -
  from add have "add_package_row s contexts package_name stp sw = (Inr rid, s1)"
    by (simp add: add_package_unvalidated)
  from add_package_row_effect[OF wf this] obtain cid extra where
    "get_context_row_id (db s1) contexts = Inr (Some cid)"
    "context_tbl (db s1) = context_tbl (db s) @ extra"
    "package_tbl (db s1) = package_tbl (db s) @
              [\<lparr>rowid = rid, pkg_context_id = cid, name = package_name,
                step = stp, software = sw\<rparr>]"
    by blast
  then show ?thesis by (auto simp: content_def)
qed

lemma filter_rowid_remove1:
  "distinct (map rowid xs) \<Longrightarrow> m \<in> set xs \<Longrightarrow>
     filter (\<lambda>x. rowid x \<noteq> rowid m) xs = remove1 m xs"
proof (induction xs)
  case Nil
  then show ?case by simp
next
  case (Cons x xs)
  show ?case
  proof (cases "x = m")
    case True
    with Cons.prems have "\<forall>y\<in>set xs. rowid y \<noteq> rowid m" by (auto simp: image_iff)
    then have "filter (\<lambda>x. rowid x \<noteq> rowid m) xs = xs" by (simp add: filter_id_conv)
    with True show ?thesis by simp
  next
    case False
    with Cons.prems have "rowid x \<noteq> rowid m" by (auto simp: image_iff)
    with False Cons show ?thesis by simp
  qed
qed

lemma remove_content:
  assumes wf: "wf_store (db s)"
    and rm: "remove_package rez s contexts package_name stp sw False = (Inr u, s1)"
  shows "\<exists>cid. get_context_row_id (db s) contexts = Inr (Some cid)
          \<and> context_tbl (db s1) = context_tbl (db s)
          \<and> add_mset (cid, package_name, stp, sw) (mset (map content (package_tbl (db s1))))
              = mset (map content (package_tbl (db s)))"
proof -
  from rm obtain found where found: "get_context_row_id (db s) contexts = Inr found"
    by (cases "get_context_row_id (db s) contexts") (auto simp: remove_package_def)
  from rm found remove_unknown_context[of s contexts rez package_name stp sw False]
  obtain cid where cid: "found = Some cid" by (cases found) auto
  with found have ctx: "get_context_row_id (db s) contexts = Inr (Some cid)" by simp
  from rm remove_unknown_package[OF wf ctx, of package_name stp sw rez False]
  obtain row rest where rows: "matching_rows (db s) cid package_name stp sw = row # rest"
    by (cases "matching_rows (db s) cid package_name stp sw") auto
  from remove_first_match[OF wf ctx rows, of rez] rm
  have tbl: "package_tbl (db s1) = filter (\<lambda>x. rowid x \<noteq> rowid row) (package_tbl (db s))"
    by (auto simp: delete_package_row_def Let_def)
  from rows have "row \<in> set (matching_rows (db s) cid package_name stp sw)" by simp
  then have mem: "row \<in> set (package_tbl (db s))"
    and c: "content row = (cid, package_name, stp, sw)"
    by (auto simp: matching_rows_def content_def)
  from wf have "distinct (map rowid (package_tbl (db s)))" by (simp add: wf_store_def)
  from filter_rowid_remove1[OF this mem] tbl
  have "package_tbl (db s1) = remove1 row (package_tbl (db s))" by simp
  with mem have "add_mset row (mset (package_tbl (db s1))) = mset (package_tbl (db s))"
    by simp
  then have "image_mset content (add_mset row (mset (package_tbl (db s1))))
      = image_mset content (mset (package_tbl (db s)))" by simp
  with c have "add_mset (cid, package_name, stp, sw) (mset (map content (package_tbl (db s1))))
              = mset (map content (package_tbl (db s)))"
    by simp
  with ctx remove_package_contexts[OF rm] show ?thesis by blast
qed

lemma resolved_cong:
  "context_tbl d1 = context_tbl d \<Longrightarrow> resolved d1 t = resolved d t"
  by (cases t) (simp add: resolved_def get_context_row_id_cong[of d1 d])

lemma resolved_append:
  assumes "get_context_row_id d (fst t) = Inr (Some cid)"
    and "context_tbl d1 = context_tbl d @ extra"
  shows "resolved d1 t = resolved d t"
  using assms get_context_row_id_append[OF assms]
  by (cases t) (simp add: resolved_def)

lemma adds_content:
  "wf_store (db s) \<Longrightarrow> run_calls rez s (map add_call ts) = Inr sm \<Longrightarrow>
     wf_store (db sm)
     \<and> (\<exists>extra. context_tbl (db sm) = context_tbl (db s) @ extra)
     \<and> (\<forall>t\<in>set ts. \<exists>cid. get_context_row_id (db sm) (fst t) = Inr (Some cid))
     \<and> mset (map content (package_tbl (db sm)))
         = mset (map content (package_tbl (db s))) + mset (map (resolved (db sm)) ts)"
proof (induction ts arbitrary: s)
  case Nil
  then show ?case by simp
next
  case (Cons t ts)
  obtain contexts package_name stp sw where t: "t = (contexts, package_name, stp, sw)"
    by (cases t) auto
  from Cons.prems(2) t obtain rid s1 where
    add: "add_package rez s contexts package_name stp sw False = (Inr rid, s1)"
    and rest: "run_calls rez s1 (map add_call ts) = Inr sm"
    by (auto split: prod.splits sum.splits)
  from wf_add_package[OF Cons.prems(1) add] have wf1: "wf_store (db s1)" .
  from add_content[OF Cons.prems(1) add] obtain cid extra1 where
    look1: "get_context_row_id (db s1) contexts = Inr (Some cid)"
    and ext1: "context_tbl (db s1) = context_tbl (db s) @ extra1"
    and m1: "mset (map content (package_tbl (db s1)))
              = add_mset (cid, package_name, stp, sw) (mset (map content (package_tbl (db s))))"
    by blast
  from Cons.IH[OF wf1 rest] obtain extra2 where
    wfm: "wf_store (db sm)"
    and ext2: "context_tbl (db sm) = context_tbl (db s1) @ extra2"
    and looks: "\<forall>t\<in>set ts. \<exists>cid. get_context_row_id (db sm) (fst t) = Inr (Some cid)"
    and mm: "mset (map content (package_tbl (db sm)))
         = mset (map content (package_tbl (db s1))) + mset (map (resolved (db sm)) ts)"
    by blast
  from get_context_row_id_append[OF look1 ext2]
  have lookm: "get_context_row_id (db sm) contexts = Inr (Some cid)" .
  then have res: "resolved (db sm) t = (cid, package_name, stp, sw)"
    by (simp add: resolved_def t)
  from ext1 ext2 have "context_tbl (db sm) = context_tbl (db s) @ (extra1 @ extra2)" by simp
  then have ext: "\<exists>extra. context_tbl (db sm) = context_tbl (db s) @ extra" by blast
  from lookm looks t have all: "\<forall>t\<in>set (t # ts). \<exists>cid. get_context_row_id (db sm) (fst t) = Inr (Some cid)"
    by simp
  from m1 mm res have "mset (map content (package_tbl (db sm)))
         = mset (map content (package_tbl (db s))) + mset (map (resolved (db sm)) (t # ts))"
    by simp
  with wfm ext all show ?case by blast
qed

lemma removes_content:
  "wf_store (db sm) \<Longrightarrow> run_calls rez sm (map remove_call rs) = Inr s2 \<Longrightarrow>
     wf_store (db s2)
     \<and> context_tbl (db s2) = context_tbl (db sm)
     \<and> mset (map content (package_tbl (db s2))) + mset (map (resolved (db sm)) rs)
         = mset (map content (package_tbl (db sm)))"
proof (induction rs arbitrary: sm)
  case Nil
  then show ?case by simp
next
  case (Cons t rs)
  obtain contexts package_name stp sw where t: "t = (contexts, package_name, stp, sw)"
    by (cases t) auto
  from Cons.prems(2) t obtain u s1 where
    rm: "remove_package rez sm contexts package_name stp sw False = (Inr u, s1)"
    and rest: "run_calls rez s1 (map remove_call rs) = Inr s2"
    by (auto split: prod.splits sum.splits)
  from wf_remove_package[OF Cons.prems(1) rm] have wf1: "wf_store (db s1)" .
  from remove_content[OF Cons.prems(1) rm] obtain cid where
    look: "get_context_row_id (db sm) contexts = Inr (Some cid)"
    and ctx1: "context_tbl (db s1) = context_tbl (db sm)"
    and m1: "add_mset (cid, package_name, stp, sw) (mset (map content (package_tbl (db s1))))
              = mset (map content (package_tbl (db sm)))"
    by blast
  from Cons.IH[OF wf1 rest] have
    wf2: "wf_store (db s2)"
    and ctx2: "context_tbl (db s2) = context_tbl (db s1)"
    and m2: "mset (map content (package_tbl (db s2))) + mset (map (resolved (db s1)) rs)
         = mset (map content (package_tbl (db s1)))"
    by blast+
  from resolved_cong[OF ctx1] have same: "map (resolved (db s1)) rs = map (resolved (db sm)) rs"
    by simp
  from look have res: "resolved (db sm) t = (cid, package_name, stp, sw)"
    by (simp add: resolved_def t)
  from m1 m2 same res
  have "mset (map content (package_tbl (db s2))) + mset (map (resolved (db sm)) (t # rs))
         = mset (map content (package_tbl (db sm)))"
    by simp
  with wf2 ctx1 ctx2 show ?case by simp
qed

lemma round_trip_content:
  assumes wf: "wf_store (db s)" and perm: "mset removed = mset added"
    and run: "run_calls rez s (map add_call added @ map remove_call removed) = Inr s2"
  shows "wf_store (db s2)
     \<and> (\<exists>extra. context_tbl (db s2) = context_tbl (db s) @ extra)
     \<and> mset (map content (package_tbl (db s2))) = mset (map content (package_tbl (db s)))"
proof -
  from run_calls_append[OF run] obtain sm where
    adds: "run_calls rez s (map add_call added) = Inr sm"
    and rems: "run_calls rez sm (map remove_call removed) = Inr s2" by blast
  from adds_content[OF wf adds] obtain extra where
    wfm: "wf_store (db sm)"
    and ext: "context_tbl (db sm) = context_tbl (db s) @ extra"
    and ma: "mset (map content (package_tbl (db sm)))
         = mset (map content (package_tbl (db s))) + mset (map (resolved (db sm)) added)"
    by blast
  from removes_content[OF wfm rems] have
    wf2: "wf_store (db s2)"
    and ctx: "context_tbl (db s2) = context_tbl (db sm)"
    and mr: "mset (map content (package_tbl (db s2))) + mset (map (resolved (db sm)) removed)
         = mset (map content (package_tbl (db sm)))"
    by blast+
  from perm have "mset (map (resolved (db sm)) removed) = mset (map (resolved (db sm)) added)"
    by (metis mset_map)
  with ma mr have "mset (map content (package_tbl (db s2))) = mset (map content (package_tbl (db s)))"
    by simp
  with wf2 ctx ext show ?thesis by auto
qed

lemma set_list_packages_spec:
  "set (list_packages_spec d pc stp sw) =
     {n. \<exists>cid g. cid \<in> set (present_ids (map (find_id d) (ancestor_chain pc)))
            \<and> g \<in> set (axis_groups stp sw)
            \<and> (cid, n, fst g, snd g) \<in> set (map content (package_tbl d))}"
  by (auto simp: list_packages_spec_def names_in_def content_def image_iff) force+

lemma find_id_append:
  assumes ext: "context_tbl d1 = context_tbl d @ extra"
    and dist: "distinct (map context_id (context_tbl d1))"
    and old: "cid \<in> set (map context_id (context_tbl d))"
  shows "find_id d1 t = Some cid \<longleftrightarrow> find_id d t = Some cid"
proof (cases "filter (\<lambda>r. triple_of r = t) (context_tbl d)")
  case Nil
  then have none: "find_id d t = None" by (simp add: find_id_def)
  have "find_id d1 t \<noteq> Some cid"
  proof
    assume "find_id d1 t = Some cid"
    with Nil ext obtain r rs where "filter (\<lambda>r. triple_of r = t) extra = r # rs"
      and "context_id r = cid"
      by (auto simp: find_id_def split: list.splits)
    then have "r \<in> set (filter (\<lambda>r. triple_of r = t) extra)" by simp
    then have "r \<in> set extra" by simp
    with \<open>context_id r = cid\<close> have "cid \<in> set (map context_id extra)" by auto
    with old dist ext show False by auto
  qed
  with none show ?thesis by simp
next
  case (Cons r rs)
  with ext show ?thesis by (simp add: find_id_def)
qed

lemma present_ids_append:
  assumes ext: "context_tbl d1 = context_tbl d @ extra"
    and dist: "distinct (map context_id (context_tbl d1))"
    and old: "cid \<in> set (map context_id (context_tbl d))"
  shows "cid \<in> set (present_ids (map (find_id d1) chain))
     \<longleftrightarrow> cid \<in> set (present_ids (map (find_id d) chain))"
  using find_id_append[OF ext dist old]
  by (auto simp: present_ids_mem image_iff) metis+

lemma same_content_same_names:
  assumes wf: "wf_store d" and wf1: "wf_store d1"
    and ext: "context_tbl d1 = context_tbl d @ extra"
    and same: "mset (map content (package_tbl d1)) = mset (map content (package_tbl d))"
  shows "set (list_packages_spec d1 pc stp sw) = set (list_packages_spec d pc stp sw)"
proof -
  from same have rows: "set (map content (package_tbl d1)) = set (map content (package_tbl d))"
    by (rule mset_eq_setD)
  from wf1 have dist: "distinct (map context_id (context_tbl d1))"
    by (simp add: wf_store_def)
  have known: "cid \<in> set (map context_id (context_tbl d))"
    if "(cid, n, g) \<in> set (map content (package_tbl d))" for cid n g
  proof -
    from that obtain r where "r \<in> set (package_tbl d)" "pkg_context_id r = cid"
      by (auto simp: content_def)
    with wf show ?thesis by (auto simp: wf_store_def)
  qed
  have "cid \<in> set (present_ids (map (find_id d1) (ancestor_chain pc)))
     \<longleftrightarrow> cid \<in> set (present_ids (map (find_id d) (ancestor_chain pc)))"
    if "(cid, n, g) \<in> set (map content (package_tbl d))" for cid n g
    by (rule present_ids_append[OF ext dist known[OF that]])
  with rows show ?thesis
    unfolding set_list_packages_spec by blast
qed

lemma get_context_row_id_find_id:
  "sanitize_context contexts = Inr pc \<Longrightarrow> get_context_row_id d contexts = Inr (find_id d pc)"
  by (simp add: get_context_row_id_def first_or_None_find_id)

lemma lookup_old_or_new:
  assumes ext: "context_tbl d1 = context_tbl d @ extra"
    and dist: "distinct (map context_id (context_tbl d1))"
    and look: "get_context_row_id d1 contexts = Inr (Some cid)"
  shows "get_context_row_id d contexts = Inr (Some cid)
     \<or> cid \<notin> set (map context_id (context_tbl d))"
proof (cases "cid \<in> set (map context_id (context_tbl d))")
  case True
  from look obtain pc where pc: "sanitize_context contexts = Inr pc"
    by (cases "sanitize_context contexts") (auto simp: get_context_row_id_def)
  from look get_context_row_id_find_id[OF pc, of d1] have "find_id d1 pc = Some cid" by simp
  with find_id_append[OF ext dist True, of pc] have "find_id d pc = Some cid" by simp
  with get_context_row_id_find_id[OF pc, of d] show ?thesis by simp
next
  case False
  then show ?thesis by simp
qed

lemma adds_rows:
  "wf_store (db s) \<Longrightarrow> run_calls rez s (map add_call ts) = Inr sm \<Longrightarrow>
     \<exists>new. package_tbl (db sm) = package_tbl (db s) @ new
          \<and> map content new = map (resolved (db sm)) ts"
proof (induction ts arbitrary: s)
  case Nil
  then show ?case by simp
next
  case (Cons t ts)
  obtain contexts package_name stp sw where t: "t = (contexts, package_name, stp, sw)"
    by (cases t) auto
  from Cons.prems(2) t obtain rid s1 where
    add: "add_package rez s contexts package_name stp sw False = (Inr rid, s1)"
    and rest: "run_calls rez s1 (map add_call ts) = Inr sm"
    by (auto split: prod.splits sum.splits)
  from wf_add_package[OF Cons.prems(1) add] have wf1: "wf_store (db s1)" .
  from add have "add_package_row s contexts package_name stp sw = (Inr rid, s1)"
    by (simp add: add_package_unvalidated)
  from add_package_row_effect[OF Cons.prems(1) this] obtain cid where
    look1: "get_context_row_id (db s1) contexts = Inr (Some cid)"
    and p1: "package_tbl (db s1) = package_tbl (db s) @
              [\<lparr>rowid = rid, pkg_context_id = cid, name = package_name,
                step = stp, software = sw\<rparr>]"
    by blast
  from adds_content[OF wf1 rest] obtain extra2 where
    ext2: "context_tbl (db sm) = context_tbl (db s1) @ extra2" by blast
  from get_context_row_id_append[OF look1 ext2]
  have "get_context_row_id (db sm) contexts = Inr (Some cid)" .
  then have res: "resolved (db sm) t = (cid, package_name, stp, sw)"
    by (simp add: resolved_def t)
  from Cons.IH[OF wf1 rest] obtain new2 where
    p2: "package_tbl (db sm) = package_tbl (db s1) @ new2"
    and c2: "map content new2 = map (resolved (db sm)) ts" by blast
  let ?row = "\<lparr>rowid = rid, pkg_context_id = cid, name = package_name,
                step = stp, software = sw\<rparr>"
  from p1 p2 have "package_tbl (db sm) = package_tbl (db s) @ (?row # new2)" by simp
  moreover from res c2 have "map content (?row # new2) = map (resolved (db sm)) (t # ts)"
    by (simp add: content_def)
  ultimately show ?case by blast
qed

lemma fresh_tuples_not_stored:
  assumes wf: "wf_store (db s)"
    and run: "run_calls rez s (map add_call ts) = Inr sm"
    and fresh: "\<forall>t\<in>set ts. fresh_tuple (db s) t"
    and r: "r \<in> set (package_tbl (db s))"
  shows "content r \<notin> set (map (resolved (db sm)) ts)"
proof
  assume "content r \<in> set (map (resolved (db sm)) ts)"
  then obtain t where t: "t \<in> set ts" and c: "content r = resolved (db sm) t" by auto
  obtain contexts package_name stp sw where tt: "t = (contexts, package_name, stp, sw)"
    by (cases t) auto
  from adds_content[OF wf run] obtain extra where
    wfm: "wf_store (db sm)"
    and ext: "context_tbl (db sm) = context_tbl (db s) @ extra"
    and looks: "\<forall>t\<in>set ts. \<exists>cid. get_context_row_id (db sm) (fst t) = Inr (Some cid)"
    by blast
  from looks t tt obtain cid where look: "get_context_row_id (db sm) contexts = Inr (Some cid)"
    by auto
  then have res: "resolved (db sm) t = (cid, package_name, stp, sw)"
    by (simp add: resolved_def tt)
  with c have cr: "pkg_context_id r = cid" "name r = package_name" "step r = stp"
    "software r = sw"
    by (simp_all add: content_def)
  from wfm have dist: "distinct (map context_id (context_tbl (db sm)))"
    by (simp add: wf_store_def)
  from lookup_old_or_new[OF ext dist look]
  show False
  proof
    assume old: "get_context_row_id (db s) contexts = Inr (Some cid)"
    with fresh t tt have "matching_rows (db s) cid package_name stp sw = []"
      by (auto simp: fresh_tuple_def)
    with r cr show False
      by (auto simp: matching_rows_def filter_empty_conv)
  next
    assume new: "cid \<notin> set (map context_id (context_tbl (db s)))"
    from wf r have "pkg_context_id r \<in> set (map context_id (context_tbl (db s)))"
      by (auto simp: wf_store_def)
    with new cr show False by simp
  qed
qed

lemma remove_row:
  assumes wf: "wf_store (db s)"
    and rm: "remove_package rez s contexts package_name stp sw False = (Inr u, s1)"
  shows "\<exists>row. row \<in> set (package_tbl (db s))
          \<and> content row = resolved (db s) (contexts, package_name, stp, sw)
          \<and> package_tbl (db s1) = remove1 row (package_tbl (db s))
          \<and> context_tbl (db s1) = context_tbl (db s)"
proof -
  from rm obtain found where found: "get_context_row_id (db s) contexts = Inr found"
    by (cases "get_context_row_id (db s) contexts") (auto simp: remove_package_def)
  from rm found remove_unknown_context[of s contexts rez package_name stp sw False]
  obtain cid where cid: "found = Some cid" by (cases found) auto
  with found have ctx: "get_context_row_id (db s) contexts = Inr (Some cid)" by simp
  from rm remove_unknown_package[OF wf ctx, of package_name stp sw rez False]
  obtain row rest where rows: "matching_rows (db s) cid package_name stp sw = row # rest"
    by (cases "matching_rows (db s) cid package_name stp sw") auto
  from remove_first_match[OF wf ctx rows, of rez] rm
  have tbl: "package_tbl (db s1) = filter (\<lambda>x. rowid x \<noteq> rowid row) (package_tbl (db s))"
    by (auto simp: delete_package_row_def Let_def)
  from rows have "row \<in> set (matching_rows (db s) cid package_name stp sw)" by simp
  then have mem: "row \<in> set (package_tbl (db s))"
    and c: "content row = (cid, package_name, stp, sw)"
    by (auto simp: matching_rows_def content_def)
  from wf have "distinct (map rowid (package_tbl (db s)))" by (simp add: wf_store_def)
  from filter_rowid_remove1[OF this mem] tbl
  have t2: "package_tbl (db s1) = remove1 row (package_tbl (db s))" by simp
  from ctx c have "content row = resolved (db s) (contexts, package_name, stp, sw)"
    by (simp add: resolved_def)
  with mem t2 remove_package_contexts[OF rm] show ?thesis by blast
qed

lemma removes_keep_prefix:
  "wf_store (db sm) \<Longrightarrow> package_tbl (db sm) = orig @ rest \<Longrightarrow>
     \<forall>r\<in>set orig. content r \<notin> set (map (resolved (db sm)) rs) \<Longrightarrow>
     run_calls rez sm (map remove_call rs) = Inr s2 \<Longrightarrow>
     \<exists>rest2. package_tbl (db s2) = orig @ rest2"
proof (induction rs arbitrary: sm rest)
  case Nil
  then show ?case by simp
next
  case (Cons t rs)
  obtain contexts package_name stp sw where t: "t = (contexts, package_name, stp, sw)"
    by (cases t) auto
  from Cons.prems(4) t obtain u s1 where
    rm: "remove_package rez sm contexts package_name stp sw False = (Inr u, s1)"
    and run: "run_calls rez s1 (map remove_call rs) = Inr s2"
    by (auto split: prod.splits sum.splits)
  from wf_remove_package[OF Cons.prems(1) rm] have wf1: "wf_store (db s1)" .
  from remove_row[OF Cons.prems(1) rm] obtain row where
    c: "content row = resolved (db sm) t"
    and tbl: "package_tbl (db s1) = remove1 row (package_tbl (db sm))"
    and ctx: "context_tbl (db s1) = context_tbl (db sm)"
    by (auto simp: t)
  from Cons.prems(3) c have "row \<notin> set orig" by auto
  with tbl Cons.prems(2) have p1: "package_tbl (db s1) = orig @ remove1 row rest"
    by (simp add: remove1_append)
  from resolved_cong[OF ctx] have "map (resolved (db s1)) rs = map (resolved (db sm)) rs"
    by simp
  with Cons.prems(3) have "\<forall>r\<in>set orig. content r \<notin> set (map (resolved (db s1)) rs)"
    by simp
  from Cons.IH[OF wf1 p1 this run] show ?case .
qed

lemma round_trip_restores_rows:
  assumes wf: "wf_store (db s)" and perm: "mset removed = mset added"
    and fresh: "\<forall>t\<in>set added. fresh_tuple (db s) t"
    and run: "run_calls rez s (map add_call added @ map remove_call removed) = Inr s2"
  shows "package_tbl (db s2) = package_tbl (db s)"
proof -
  from run_calls_append[OF run] obtain sm where
    adds: "run_calls rez s (map add_call added) = Inr sm"
    and rems: "run_calls rez sm (map remove_call removed) = Inr s2" by blast
  from adds_content[OF wf adds] have wfm: "wf_store (db sm)" by blast
  from adds_rows[OF wf adds] obtain new where
    pm: "package_tbl (db sm) = package_tbl (db s) @ new" by blast
  from perm have "set removed = set added" by (rule mset_eq_setD)
  with fresh_tuples_not_stored[OF wf adds fresh]
  have "\<forall>r\<in>set (package_tbl (db s)). content r \<notin> set (map (resolved (db sm)) removed)"
    by auto
  from removes_keep_prefix[OF wfm pm this rems] obtain rest2 where
    p2: "package_tbl (db s2) = package_tbl (db s) @ rest2" by blast
  from round_trip_content[OF wf perm run]
  have "mset (map content (package_tbl (db s2))) = mset (map content (package_tbl (db s)))"
    by blast
  then have "size (mset (map content (package_tbl (db s2))))
      = size (mset (map content (package_tbl (db s))))" by simp
  with p2 have "rest2 = []" by simp
  with p2 show ?thesis by simp
qed

lemma filter_keep_first: "filter P (keep_first xs) = keep_first (filter P xs)"
proof (induction xs rule: keep_first.induct)
  case 1
  then show ?case by simp
next
  case (2 x xs)
  have swap: "filter P (filter (\<lambda>y. y \<noteq> x) xs) = filter (\<lambda>y. y \<noteq> x) (filter P xs)"
    by (induction xs) auto
  show ?case
  proof (cases "P x")
    case True
    with 2 swap show ?thesis by simp
  next
    case False
    then have "filter (\<lambda>y. y \<noteq> x) (filter P xs) = filter P xs"
      by (induction xs) auto
    with False 2 swap show ?thesis by simp
  qed
qed

lemma concat_map_filter_empty:
  "(\<And>x. \<not> P x \<Longrightarrow> f x = []) \<Longrightarrow> concat (map f (filter P xs)) = concat (map f xs)"
  by (induction xs) auto

lemma find_id_old:
  assumes ext: "context_tbl d1 = context_tbl d @ extra"
    and dist: "distinct (map context_id (context_tbl d1))"
  shows "filter (\<lambda>i. i \<in> set (map context_id (context_tbl d)))
           (case find_id d1 t of None \<Rightarrow> [] | Some cid \<Rightarrow> [cid])
       = (case find_id d t of None \<Rightarrow> [] | Some cid \<Rightarrow> [cid])"
proof (cases "find_id d1 t")
  case None
  have "find_id d t = None"
  proof (cases "find_id d t")
    case None
    then show ?thesis .
  next
    case (Some i)
    with find_id_mem[OF Some] find_id_append[OF ext dist, of i t] None show ?thesis by simp
  qed
  with None show ?thesis by simp
next
  case (Some j)
  show ?thesis
  proof (cases "j \<in> set (map context_id (context_tbl d))")
    case True
    with find_id_append[OF ext dist True, of t] Some show ?thesis by simp
  next
    case False
    have "find_id d t = None"
    proof (cases "find_id d t")
      case None
      then show ?thesis .
    next
      case (Some i)
      from find_id_mem[OF Some] find_id_append[OF ext dist, of i t] Some
      have "find_id d1 t = Some i" by simp
      with \<open>find_id d1 t = Some j\<close> find_id_mem[OF Some] False show ?thesis by simp
    qed
    with Some False show ?thesis by simp
  qed
qed

lemma present_ids_old:
  assumes ext: "context_tbl d1 = context_tbl d @ extra"
    and dist: "distinct (map context_id (context_tbl d1))"
  shows "filter (\<lambda>i. i \<in> set (map context_id (context_tbl d)))
           (present_ids (map (find_id d1) chain))
       = present_ids (map (find_id d) chain)"
proof (induction chain)
  case Nil
  then show ?case by (simp add: present_ids_def)
next
  case (Cons t chain)
  from find_id_old[OF ext dist, of t] Cons show ?case
    by (simp add: present_ids_def)
qed

lemma same_rows_same_listing:
  assumes wf: "wf_store d" and wf1: "wf_store d1"
    and ext: "context_tbl d1 = context_tbl d @ extra"
    and same: "package_tbl d1 = package_tbl d"
  shows "list_packages_spec d1 pc stp sw = list_packages_spec d pc stp sw"
proof -
  let ?old = "\<lambda>i. i \<in> set (map context_id (context_tbl d))"
  let ?f = "\<lambda>cid. concat (map (names_in d cid) (axis_groups stp sw))"
  from wf1 have dist: "distinct (map context_id (context_tbl d1))"
    by (simp add: wf_store_def)
  have names: "names_in d1 cid = names_in d cid" for cid
    by (rule HOL.ext) (simp add: names_in_def same)
  have empty: "?f i = []" if "\<not> ?old i" for i
  proof -
    from wf that have "\<forall>r\<in>set (package_tbl d). pkg_context_id r \<noteq> i"
      by (auto simp: wf_store_def)
    then have "names_in d i g = []" for g
      by (simp add: names_in_def filter_empty_conv)
    then show ?thesis by simp
  qed
  have "concat (map ?f (keep_first (present_ids (map (find_id d1) (ancestor_chain pc)))))
      = concat (map ?f (filter ?old
          (keep_first (present_ids (map (find_id d1) (ancestor_chain pc))))))"
    using concat_map_filter_empty[of ?old ?f, OF empty] by simp
  also have "\<dots> = concat (map ?f (keep_first (present_ids (map (find_id d) (ancestor_chain pc)))))"
    by (simp only: filter_keep_first present_ids_old[OF ext dist])
  finally show ?thesis
    by (simp add: list_packages_spec_def names)
qed

lemma round_trip_same_listing:
  assumes wf: "wf_store (db s)" and perm: "mset removed = mset added"
    and fresh: "\<forall>t\<in>set added. fresh_tuple (db s) t"
    and run: "run_calls rez s (map add_call added @ map remove_call removed) = Inr s2"
    and pc: "sanitize_context contexts = Inr pc"
  shows "get_package_list rez (db s2) contexts stp sw False
     = get_package_list rez (db s) contexts stp sw False"
proof -
  from round_trip_content[OF wf perm run] obtain extra where
    wf2: "wf_store (db s2)"
    and ext: "context_tbl (db s2) = context_tbl (db s) @ extra"
    by blast
  from round_trip_restores_rows[OF wf perm fresh run]
  have same: "package_tbl (db s2) = package_tbl (db s)" .
  from wf have z: "0 \<notin> set (map context_id (context_tbl (db s)))"
    by (simp add: wf_store_def)
  from wf2 have z2: "0 \<notin> set (map context_id (context_tbl (db s2)))"
    by (simp add: wf_store_def)
  have "get_package_list rez (db s) contexts stp sw False
      = Inr (list_packages_spec (db s) pc stp sw)"
    using get_package_list_unvalidated[OF pc] collect_packages_spec[OF z] by simp
  moreover have "get_package_list rez (db s2) contexts stp sw False
      = Inr (list_packages_spec (db s2) pc stp sw)"
    using get_package_list_unvalidated[OF pc] collect_packages_spec[OF z2] by simp
  moreover have "list_packages_spec (db s2) pc stp sw = list_packages_spec (db s) pc stp sw"
    by (rule same_rows_same_listing[OF wf wf2 ext same])
  ultimately show ?thesis by simp
qed

text \<open>
  Claim C6, as stated, fails: \<open>remove_package\<close> deletes the first row equal to the
  tuple, which is the oldest one, not the one just added. On a studio root holding
  packageX then packageY, adding packageX at the studio scope and removing it again
  leaves packageY before packageX: the listing was (packageX, packageY) and is now
  (packageY, packageX).
\<close>

theorem round_trip_reorders_names:
  "get_package_list accepting_resolver (db xy_session) [] None None False
     = Inr [''packageX'', ''packageY'']
   \<and> run_calls accepting_resolver xy_session round_trip
     = Inr (projr (run_calls accepting_resolver xy_session round_trip))
   \<and> get_package_list accepting_resolver
       (db (projr (run_calls accepting_resolver xy_session round_trip))) [] None None False
     = Inr [''packageY'', ''packageX'']"
  by code_simp

text \<open>
  Claim C6, amended. From every store whose ids are as SQLite assigns them, after a
  successful run of \<open>add_package\<close> calls followed by \<open>remove_package\<close> calls for the
  same tuples, in any order (validation disabled), \<open>get_package_list\<close> returns for
  every context, step and software the same names as before the run, each once; and when
  no row of the store before the run is equal to an added tuple, it returns exactly the
  same sequence. Otherwise the order may differ.
\<close>

theorem round_trip_keeps_the_names:
  "(wf_store (db s) \<and> mset removed = mset added
     \<and> run_calls rez s (map add_call added @ map remove_call removed) = Inr s_after
     \<and> sanitize_context contexts = Inr pc
     \<longrightarrow> (\<exists>before after.
            get_package_list rez (db s) contexts stp sw False = Inr before
          \<and> get_package_list rez (db s_after) contexts stp sw False = Inr after
          \<and> mset after = mset before))
   \<and> (wf_store (db s) \<and> mset removed = mset added
     \<and> (\<forall>t\<in>set added. fresh_tuple (db s) t)
     \<and> run_calls rez s (map add_call added @ map remove_call removed) = Inr s_after
     \<and> sanitize_context contexts = Inr pc
     \<longrightarrow> get_package_list rez (db s_after) contexts stp sw False
           = get_package_list rez (db s) contexts stp sw False)"
proof (intro conjI impI)
  assume a: "wf_store (db s) \<and> mset removed = mset added
   \<and> run_calls rez s (map add_call added @ map remove_call removed) = Inr s_after
   \<and> sanitize_context contexts = Inr pc"
  then have wf: "wf_store (db s)" and perm: "mset removed = mset added"
    and run: "run_calls rez s (map add_call added @ map remove_call removed) = Inr s_after"
    and pc: "sanitize_context contexts = Inr pc" by simp_all
  from round_trip_content[OF wf perm run] obtain extra where
    wf2: "wf_store (db s_after)"
    and ext: "context_tbl (db s_after) = context_tbl (db s) @ extra"
    and same: "mset (map content (package_tbl (db s_after)))
                 = mset (map content (package_tbl (db s)))"
    by blast
  from wf have z: "0 \<notin> set (map context_id (context_tbl (db s)))"
    by (simp add: wf_store_def)
  from wf2 have z2: "0 \<notin> set (map context_id (context_tbl (db s_after)))"
    by (simp add: wf_store_def)
  have before: "get_package_list rez (db s) contexts stp sw False
      = Inr (list_packages_spec (db s) pc stp sw)"
    using get_package_list_unvalidated[OF pc] collect_packages_spec[OF z] by simp
  have after: "get_package_list rez (db s_after) contexts stp sw False
      = Inr (list_packages_spec (db s_after) pc stp sw)"
    using get_package_list_unvalidated[OF pc] collect_packages_spec[OF z2] by simp
  have "set (list_packages_spec (db s_after) pc stp sw) = set (list_packages_spec (db s) pc stp sw)"
    by (rule same_content_same_names[OF wf wf2 ext same])
  moreover have "distinct (list_packages_spec (db s_after) pc stp sw)"
    and "distinct (list_packages_spec (db s) pc stp sw)"
    by (simp_all add: list_packages_spec_def)
  ultimately have "mset (list_packages_spec (db s_after) pc stp sw)
      = mset (list_packages_spec (db s) pc stp sw)"
    by (simp add: set_eq_iff_mset_eq_distinct)
  with before after show "\<exists>before after.
          get_package_list rez (db s) contexts stp sw False = Inr before
        \<and> get_package_list rez (db s_after) contexts stp sw False = Inr after
        \<and> mset after = mset before"
    by blast
next
  assume "wf_store (db s) \<and> mset removed = mset added
     \<and> (\<forall>t\<in>set added. fresh_tuple (db s) t)
     \<and> run_calls rez s (map add_call added @ map remove_call removed) = Inr s_after
     \<and> sanitize_context contexts = Inr pc"
  then show "get_package_list rez (db s_after) contexts stp sw False
           = get_package_list rez (db s) contexts stp sw False"
    by (blast intro: round_trip_same_listing)
qed

theorem round_trip_keeps_the_names_witness:
  "wf_store (db xy_session)
   \<and> mset [([], ''packageX'', None, None)] = mset [([], ''packageX'', None, None)]
   \<and> run_calls accepting_resolver xy_session round_trip
       = Inr (projr (run_calls accepting_resolver xy_session round_trip))
   \<and> sanitize_context [] = Inr (None, None, None)
   \<and> (\<exists>before after.
          get_package_list accepting_resolver (db xy_session) [] None None False = Inr before
        \<and> get_package_list accepting_resolver
             (db (projr (run_calls accepting_resolver xy_session round_trip)))
             [] None None False = Inr after
        \<and> mset after = mset before)
   \<and> mset (rev zw_added) = mset zw_added
   \<and> fresh_tuple (db xy_session) ([Some ''project''], ''packageZ'', Some ''stepA'', None)
   \<and> fresh_tuple (db xy_session) ([], ''packageW'', None, None)
   \<and> run_calls accepting_resolver xy_session
         (map add_call zw_added @ map remove_call (rev zw_added))
       = Inr (projr (run_calls accepting_resolver xy_session
                      (map add_call zw_added @ map remove_call (rev zw_added))))
   \<and> get_package_list accepting_resolver
         (db (projr (run_calls accepting_resolver xy_session
                      (map add_call zw_added @ map remove_call (rev zw_added)))))
         [] None None False
       = Inr [''packageX'', ''packageY'']"
proof -
  let ?zw = "projr (run_calls accepting_resolver xy_session
                      (map add_call zw_added @ map remove_call (rev zw_added)))"
  have wf: "wf_store (db xy_session)"
    by code_simp
  have run: "run_calls accepting_resolver xy_session
               (map add_call [([], ''packageX'', None, None)]
                @ map remove_call [([], ''packageX'', None, None)])
       = Inr (projr (run_calls accepting_resolver xy_session round_trip))"
    by code_simp
  have run2: "run_calls accepting_resolver xy_session round_trip
       = Inr (projr (run_calls accepting_resolver xy_session round_trip))"
    by code_simp
  have pc: "sanitize_context [] = Inr (None, None, None)"
    by (simp add: sanitize_context_def)
  have perm: "mset (rev zw_added) = mset zw_added"
    by simp
  have fresh1: "fresh_tuple (db xy_session)
                  ([Some ''project''], ''packageZ'', Some ''stepA'', None)"
    by code_simp
  have fresh2: "fresh_tuple (db xy_session) ([], ''packageW'', None, None)"
    by code_simp
  from fresh1 fresh2 have fresh: "\<forall>t\<in>set zw_added. fresh_tuple (db xy_session) t"
    by (simp add: zw_added_def)
  have run3: "run_calls accepting_resolver xy_session
         (map add_call zw_added @ map remove_call (rev zw_added)) = Inr ?zw"
    by code_simp
  have before: "get_package_list accepting_resolver (db xy_session) [] None None False
       = Inr [''packageX'', ''packageY'']"
    by code_simp
  from round_trip_keeps_the_names
         [where s = xy_session and removed = "[([], ''packageX'', None, None)]"
            and added = "[([], ''packageX'', None, None)]" and rez = accepting_resolver
            and s_after = "projr (run_calls accepting_resolver xy_session round_trip)"
            and contexts = "[]" and pc = "(None, None, None)" and stp = None and sw = None]
       round_trip_keeps_the_names
         [where s = xy_session and removed = "rev zw_added"
            and added = zw_added and rez = accepting_resolver
            and s_after = ?zw
            and contexts = "[]" and pc = "(None, None, None)" and stp = None and sw = None]
       wf run run2 pc perm fresh fresh1 fresh2 run3 before
  show ?thesis by simp
qed

end
